theory Spec2Isabelle
  imports Main
begin

unbundle bit_operations_syntax

section \<open>Exceptions\<close>

text \<open>
  Exceptions are values. \<open>TypeError\<close> and \<open>ValueError\<close> are the two classes
  \<^verbatim>\<open>pipeline.py\<close> raises itself; \<open>AttributeError\<close> is what the lookup of a method on
  \<^verbatim>\<open>None\<close> raises; \<open>Exception\<close> stands for any other class deriving
  from Python's \<^verbatim>\<open>Exception\<close> that a user hook may raise; \<open>KeyboardInterrupt\<close> and
  \<open>SystemExit\<close> derive from \<^verbatim>\<open>BaseException\<close> only, so a clause
  \<^verbatim>\<open>except Exception\<close> does not catch them.
\<close>

datatype exc =
    TypeError string
  | ValueError string
  | AttributeError string
  | Exception string
  | KeyboardInterrupt
  | SystemExit

fun isinstance_Exception :: "exc \<Rightarrow> bool" where
  "isinstance_Exception (TypeError m) = True"
| "isinstance_Exception (ValueError m) = True"
| "isinstance_Exception (AttributeError m) = True"
| "isinstance_Exception (Exception m) = True"
| "isinstance_Exception KeyboardInterrupt = False"
| "isinstance_Exception SystemExit = False"

section \<open>Param\<close>

text \<open>
  The class \<^verbatim>\<open>Param\<close>. The fields carry the prefix \<open>p_\<close> (\<open>p_pos\<close> is the
  attribute \<^verbatim>\<open>_pos\<close>). \<open>p_adjust = None\<close> is \<^verbatim>\<open>adjust=None\<close>; an adjustment is a total
  function on Python's unbounded integers.
\<close>

record Param =
  p_label :: string
  p_max :: int
  p_min :: int
  p_adjust :: "(int \<Rightarrow> int) option"
  p_default :: int
  p_value :: int
  p_dirty :: bool
  p_pos :: int

text \<open>
  \<^verbatim>\<open>Param.__init__(label, _max, _min, default, adjust)\<close>: the value is clamped from
  below first, stored as the position, and only then adjusted.
\<close>

definition Param_init ::
  "string \<Rightarrow> int \<Rightarrow> int \<Rightarrow> int \<Rightarrow> (int \<Rightarrow> int) option \<Rightarrow> Param" where
  "Param_init label mx mn dflt adj =
     (let v = max mn dflt in
      \<lparr> p_label = label, p_max = mx, p_min = mn, p_adjust = adj, p_default = dflt,
        p_value = (case adj of None \<Rightarrow> v | Some f \<Rightarrow> f v),
        p_dirty = True, p_pos = v \<rparr>)"

text \<open>
  The slider source \<^verbatim>\<open>cv2.getTrackbarPos(label, win_name)\<close> is external: one tick reads
  it through a function from label and window name to the position.
\<close>

type_synonym trackbars = "string \<Rightarrow> string \<Rightarrow> int"

text \<open>\<^verbatim>\<open>Param.update_value(win_name)\<close>.\<close>

definition update_value :: "trackbars \<Rightarrow> Param \<Rightarrow> string \<Rightarrow> Param" where
  "update_value tb p win_name =
     (let pos = tb (p_label p) win_name;
          dirty = (if p_pos p = pos then False else True);
          pos' = (case p_adjust p of None \<Rightarrow> pos | Some f \<Rightarrow> f pos)
      in p\<lparr> p_dirty := dirty, p_pos := pos, p_value := max pos' (p_min p) \<rparr>)"

section \<open>Transform\<close>

text \<open>
  Buffers are opaque: a buffer is \<open>None\<close> (Python's \<^verbatim>\<open>None\<close>, the default input and
  the initial \<^verbatim>\<open>last_output\<close>) or \<open>Some\<close> image. The dictionary \<^verbatim>\<open>params\<close> keeps
  its insertion order, so it is an association list with one entry per key.

  The two methods a subclass overrides are fields: \<open>t_compute_values\<close> may change the
  Params or raise; \<open>t_draw\<close> reads the Params and the buffer and returns a buffer or
  raises. \<open>t_class_name\<close> is \<^verbatim>\<open>self.__class__.__name__\<close>.

  A hook is a function of the values it is given, and every Transform is a value of
  its own: a \<^verbatim>\<open>draw\<close> that writes into the buffer it received, and one Transform
  object placed in two Windows, are outside the model.
\<close>

type_synonym 'img buffer = "'img option"

type_synonym params = "(string \<times> Param) list"

record 'img Transform =
  t_class_name :: string
  t_last_output :: "'img buffer"
  t_params :: params
  t_compute_values :: "params \<Rightarrow> exc + params"
  t_draw :: "params \<Rightarrow> 'img buffer \<Rightarrow> exc + 'img buffer"

text \<open>\<^verbatim>\<open>d[k] = v\<close> on an insertion-ordered dictionary.\<close>

fun dict_set :: "('k \<times> 'v) list \<Rightarrow> 'k \<Rightarrow> 'v \<Rightarrow> ('k \<times> 'v) list" where
  "dict_set [] k v = [(k, v)]"
| "dict_set ((k', v') # d) k v = (if k' = k then (k', v) # d else (k', v') # dict_set d k v)"

text \<open>
  The value of an attribute: a Param or anything else. The class dictionary
  \<^verbatim>\<open>self.__class__.__dict__\<close> lists the class attributes in definition order, and
  the instance dictionary the attributes set on the instance. The attributes are plain
  values (no descriptors), so \<^verbatim>\<open>getattr(self, attr)\<close> is the instance attribute when
  there is one and the class attribute otherwise.
\<close>

datatype attr_value = ParamAttr Param | OtherAttr

definition getattr :: "(string \<times> attr_value) list \<Rightarrow> string \<Rightarrow> attr_value \<Rightarrow> attr_value" where
  "getattr attrs attr class_value =
     (case map_of attrs attr of Some v \<Rightarrow> v | None \<Rightarrow> class_value)"

text \<open>
  \<^verbatim>\<open>Transform._get_params\<close>: the loop over the class dictionary, carrying the instance
  dictionary, which \<^verbatim>\<open>setattr\<close> changes, and the dictionary \<^verbatim>\<open>params\<close>.
\<close>

fun get_params_loop ::
  "(string \<times> attr_value) list \<Rightarrow> (string \<times> attr_value) list \<Rightarrow> params \<Rightarrow>
   (string \<times> attr_value) list \<times> params" where
  "get_params_loop [] attrs ps = (attrs, ps)"
| "get_params_loop ((attr, class_value) # rest) attrs ps =
     (case getattr attrs attr class_value of
        OtherAttr \<Rightarrow> get_params_loop rest attrs ps
      | ParamAttr inst \<Rightarrow>
          (let new_inst = Param_init (p_label inst) (p_max inst) (p_min inst) (p_default inst)
                            (p_adjust inst);
               label = (if p_label new_inst \<noteq> [] then p_label new_inst else attr);
               new_inst = new_inst\<lparr> p_label := label \<rparr>
           in get_params_loop rest (dict_set attrs attr (ParamAttr new_inst))
                (dict_set ps label new_inst)))"

text \<open>
  \<^verbatim>\<open>self._get_params()\<close> on an instance with the dictionary \<open>inst_dict\<close> of a class
  with the dictionary \<open>cls\<close>: the instance dictionary after the call, and \<^verbatim>\<open>params\<close>.
\<close>

definition get_params ::
  "(string \<times> attr_value) list \<Rightarrow> (string \<times> attr_value) list \<Rightarrow>
   (string \<times> attr_value) list \<times> params" where
  "get_params inst_dict cls = get_params_loop cls inst_dict []"

text \<open>
  \<^verbatim>\<open>Transform.__init__\<close>, for a subclass given by its name, its class dictionary and its
  two methods, on an instance whose dictionary is \<open>pre\<close>: empty, unless the
  \<^verbatim>\<open>__init__\<close> of the subclass set attributes before it called this one. The assignment
  \<^verbatim>\<open>self.last_output = None\<close> comes before the call of \<^verbatim>\<open>_get_params\<close>.
\<close>

definition instance_dict :: "(string \<times> attr_value) list \<Rightarrow> (string \<times> attr_value) list" where
  "instance_dict pre = dict_set pre ''last_output'' OtherAttr"

definition Transform_init ::
  "string \<Rightarrow> (string \<times> attr_value) list \<Rightarrow> (string \<times> attr_value) list \<Rightarrow>
   (params \<Rightarrow> exc + params) \<Rightarrow> (params \<Rightarrow> 'img buffer \<Rightarrow> exc + 'img buffer) \<Rightarrow>
   'img Transform" where
  "Transform_init name cls pre cv dr =
     \<lparr> t_class_name = name, t_last_output = None,
       t_params = snd (get_params (instance_dict pre) cls),
       t_compute_values = cv, t_draw = dr \<rparr>"

text \<open>The property \<^verbatim>\<open>Transform.dirty\<close>.\<close>

definition Transform_dirty :: "'img Transform \<Rightarrow> bool" where
  "Transform_dirty t = list_ex (\<lambda>(l, p). p_dirty p) (t_params t)"

text \<open>\<^verbatim>\<open>Transform.update_params(win_name)\<close>; with no Params it returns at once.\<close>

definition update_params :: "trackbars \<Rightarrow> 'img Transform \<Rightarrow> string \<Rightarrow> 'img Transform" where
  "update_params tb t win_name =
     (if t_params t = [] then t
      else t\<lparr> t_params := map (\<lambda>(l, p). (l, update_value tb p win_name)) (t_params t) \<rparr>)"

text \<open>
  \<^verbatim>\<open>Transform._draw(img)\<close>. \<^verbatim>\<open>compute_values\<close> is called before the \<^verbatim>\<open>try\<close>, so what
  it raises leaves \<^verbatim>\<open>_draw\<close>; the \<^verbatim>\<open>try\<close> around \<^verbatim>\<open>draw\<close> catches the classes under
  \<^verbatim>\<open>Exception\<close> and keeps \<^verbatim>\<open>result = img\<close>. The line printed by the handler is not
  modelled.
\<close>

definition clear_dirty :: "params \<Rightarrow> params" where
  "clear_dirty ps = map (\<lambda>(l, p). (l, p\<lparr> p_dirty := False \<rparr>)) ps"

definition Transform__draw ::
  "'img Transform \<Rightarrow> 'img buffer \<Rightarrow> exc + ('img Transform \<times> 'img buffer)" where
  "Transform__draw t img =
     (case t_compute_values t (t_params t) of
        Inl e \<Rightarrow> Inl e
      | Inr ps \<Rightarrow>
          (case (case t_draw t ps img of
                   Inr r \<Rightarrow> Inr r
                 | Inl e \<Rightarrow> if isinstance_Exception e then Inr img else Inl e) of
             Inl e \<Rightarrow> Inl e
           | Inr result \<Rightarrow>
               Inr (t\<lparr> t_last_output := result, t_params := clear_dirty ps \<rparr>, result)))"

section \<open>Window\<close>

record 'img Window =
  w_name :: string
  w_transforms :: "'img Transform list"
  w_last_output :: "'img buffer"

text \<open>
  Python's \<^verbatim>\<open>str\<close> of an integer, for the name \<^verbatim>\<open>f'Step {self.counter}'\<close>.
\<close>

definition digit_char :: "nat \<Rightarrow> char" where
  "digit_char d = ''0123456789'' ! d"

function str_nat :: "nat \<Rightarrow> string" where
  "str_nat n = (if n < 10 then [digit_char n] else str_nat (n div 10) @ [digit_char (n mod 10)])"
  by pat_completeness auto
termination
  by (relation "measure (\<lambda>n. n)") auto

declare str_nat.simps [simp del]

definition str_int :: "int \<Rightarrow> string" where
  "str_int i = (if i < 0 then CHR ''-'' # str_nat (nat (- i)) else str_nat (nat i))"

text \<open>
  \<^verbatim>\<open>Window.__init__(transforms, name)\<close>. The class attribute \<^verbatim>\<open>Window.counter\<close> is
  passed in and returned.
\<close>

definition Window_init ::
  "'img Transform list \<Rightarrow> string \<Rightarrow> int \<Rightarrow> 'img Window \<times> int" where
  "Window_init transforms name counter =
     (if name = []
      then (\<lparr> w_name = ''Step '' @ str_int counter, w_transforms = transforms,
              w_last_output = None \<rparr>, counter + 1)
      else (\<lparr> w_name = name, w_transforms = transforms, w_last_output = None \<rparr>, counter))"

text \<open>
  The property \<^verbatim>\<open>Window.dirty\<close>: the loop over \<^verbatim>\<open>enumerate(self.transforms)\<close>, which
  returns inside the loop at the first dirty Transform. It returns the index and the
  Transforms as the calls of \<^verbatim>\<open>update_params\<close> left them.
\<close>

fun dirty_loop ::
  "trackbars \<Rightarrow> string \<Rightarrow> int \<Rightarrow> 'img Transform list \<Rightarrow> int \<times> 'img Transform list" where
  "dirty_loop tb name i [] = (- 1, [])"
| "dirty_loop tb name i (transform # rest) =
     (let transform' = update_params tb transform name in
      if Transform_dirty transform' then (i, transform' # rest)
      else (let (r, rest') = dirty_loop tb name (i + 1) rest in (r, transform' # rest')))"

definition Window_dirty :: "trackbars \<Rightarrow> 'img Window \<Rightarrow> int \<times> 'img Window" where
  "Window_dirty tb w =
     (let (r, ts) = dirty_loop tb (w_name w) 0 (w_transforms w) in (r, w\<lparr> w_transforms := ts \<rparr>))"

text \<open>
  \<^verbatim>\<open>Window.draw(img)\<close>: the loop over the Transforms, then
  \<^verbatim>\<open>cv2.imshow(self.name, result.astype(np.uint8))\<close>, outside any \<^verbatim>\<open>try\<close>.
\<close>

fun draw_loop ::
  "'img Transform list \<Rightarrow> 'img buffer \<Rightarrow> exc + ('img Transform list \<times> 'img buffer)" where
  "draw_loop [] result = Inr ([], result)"
| "draw_loop (transform # rest) result =
     (case Transform__draw transform result of
        Inl e \<Rightarrow> Inl e
      | Inr (transform', result') \<Rightarrow>
          (case draw_loop rest result' of
             Inl e \<Rightarrow> Inl e
           | Inr (rest', result'') \<Rightarrow> Inr (transform' # rest', result'')))"

text \<open>
  \<^verbatim>\<open>result.astype(np.uint8)\<close>: on \<^verbatim>\<open>None\<close> the lookup of \<^verbatim>\<open>astype\<close> raises
  \<^verbatim>\<open>AttributeError\<close>; on any other value it is the call of that value's method, the
  parameter \<open>astype\<close>, which returns the converted image or raises.
\<close>

definition astype_uint8 :: "('img \<Rightarrow> exc + 'img) \<Rightarrow> 'img buffer \<Rightarrow> exc + 'img" where
  "astype_uint8 astype result =
     (case result of
        None \<Rightarrow>
          Inl (AttributeError
                 ([CHR 0x27] @ ''NoneType'' @ [CHR 0x27] @ '' object has no attribute '' @
                  [CHR 0x27] @ ''astype'' @ [CHR 0x27]))
      | Some a \<Rightarrow> astype a)"

text \<open>
  The display is external: each call of \<^verbatim>\<open>cv2.imshow\<close> appends the window name and
  the converted image to the list of frames shown, and is taken to return.
\<close>

type_synonym 'img display = "(string \<times> 'img) list"

definition Window_draw ::
  "('img \<Rightarrow> exc + 'img) \<Rightarrow> 'img Window \<Rightarrow> 'img buffer \<Rightarrow> 'img display \<Rightarrow>
   exc + ('img Window \<times> 'img display \<times> 'img buffer)" where
  "Window_draw astype w img shown =
     (case draw_loop (w_transforms w) img of
        Inl e \<Rightarrow> Inl e
      | Inr (ts, result) \<Rightarrow>
          (case astype_uint8 astype result of
             Inl e \<Rightarrow> Inl e
           | Inr frame \<Rightarrow>
               Inr (w\<lparr> w_transforms := ts, w_last_output := result \<rparr>,
                    shown @ [(w_name w, frame)], result)))"

section \<open>The loop of run_pipe\<close>

text \<open>
  \<^verbatim>\<open>[win.dirty for win in windows]\<close>: every Window's property is read, in order.
\<close>

fun dirty_all :: "trackbars \<Rightarrow> 'img Window list \<Rightarrow> int list \<times> 'img Window list" where
  "dirty_all tb [] = ([], [])"
| "dirty_all tb (win # rest) =
     (let (d, win') = Window_dirty tb win;
          (ds, rest') = dirty_all tb rest
      in (d # ds, win' # rest'))"

text \<open>
  \<^verbatim>\<open>np.argmax\<close> on an array of booleans: the index of the first \<^verbatim>\<open>True\<close>, and 0 when
  there is none.
\<close>

fun first_true :: "bool list \<Rightarrow> nat" where
  "first_true [] = 0"
| "first_true (b # bs) = (if b then 0 else Suc (first_true bs))"

definition argmax :: "bool list \<Rightarrow> nat" where
  "argmax bs = (if list_ex (\<lambda>b. b) bs then first_true bs else 0)"

text \<open>\<^verbatim>\<open>for window in windows[offset:]: result = window.draw(result)\<close>.\<close>

fun draw_windows ::
  "('img \<Rightarrow> exc + 'img) \<Rightarrow> 'img Window list \<Rightarrow> 'img buffer \<Rightarrow> 'img display \<Rightarrow>
   exc + ('img Window list \<times> 'img display \<times> 'img buffer)" where
  "draw_windows astype [] result shown = Inr ([], shown, result)"
| "draw_windows astype (window # rest) result shown =
     (case Window_draw astype window result shown of
        Inl e \<Rightarrow> Inl e
      | Inr (window', shown', result') \<Rightarrow>
          (case draw_windows astype rest result' shown' of
             Inl e \<Rightarrow> Inl e
           | Inr (rest', shown'', result'') \<Rightarrow> Inr (window' # rest', shown'', result'')))"

text \<open>
  The state of the loop: the Windows and the frames shown so far. \<open>np_copy\<close> is
  \<^verbatim>\<open>np.copy\<close>, a parameter like \<open>astype\<close>; \<open>img\<close> is the argument of
  \<^verbatim>\<open>run_pipe\<close>.

  \<open>update_windows\<close> is the second half of the loop body, from the comment
  \<^verbatim>\<open># Only update starting at first dirty window\<close> on. The statement \<^verbatim>\<open>continue\<close>
  returns the state after the synchronization with nothing drawn.
\<close>

definition update_windows ::
  "('img \<Rightarrow> exc + 'img) \<Rightarrow> ('img buffer \<Rightarrow> 'img buffer) \<Rightarrow> 'img buffer \<Rightarrow> trackbars \<Rightarrow>
   'img Window list \<times> 'img display \<Rightarrow> exc + ('img Window list \<times> 'img display)" where
  "update_windows astype np_copy img tb st =
     (let result = np_copy img;
          (dirty, windows) = dirty_all tb (fst st);
          clean = map (\<lambda>d. d = - 1) dirty
      in if list_all (\<lambda>b. b) clean then Inr (windows, snd st)
         else
           (let offset = argmax (map (\<lambda>d. d \<ge> 0) dirty);
                result = (if offset = 0 then result else w_last_output (windows ! (offset - 1)))
            in case draw_windows astype (drop offset windows) result (snd st) of
                 Inl e \<Rightarrow> Inl e
               | Inr (drawn, shown, r) \<Rightarrow> Inr (take offset windows @ drawn, shown)))"

text \<open>
  What one tick reads from the GUI: the key (\<^verbatim>\<open>cv2.waitKey(1)\<close>), for each window name
  whether \<^verbatim>\<open>cv2.getWindowProperty(name, cv2.WND_PROP_VISIBLE)\<close> is a true value, and the
  slider positions.
\<close>

record tick_input =
  key :: int
  visible :: "string \<Rightarrow> bool"
  trackbar :: trackbars

datatype 'a outcome = Terminated 'a | Running 'a

text \<open>
  \<^verbatim>\<open>while True\<close>, run on the ticks of a finite list of GUI readings: \<open>Terminated\<close>
  when a \<^verbatim>\<open>break\<close> was reached, \<open>Running\<close> when the readings are used up, \<open>Inl\<close> when
  an exception left the loop.
\<close>

fun run_loop ::
  "('img \<Rightarrow> exc + 'img) \<Rightarrow> ('img buffer \<Rightarrow> 'img buffer) \<Rightarrow> 'img buffer \<Rightarrow> tick_input list \<Rightarrow>
   'img Window list \<times> 'img display \<Rightarrow> exc + ('img Window list \<times> 'img display) outcome" where
  "run_loop astype np_copy img [] st = Inr (Running st)"
| "run_loop astype np_copy img (i # rest) st =
     (let k = key i AND 255 in
      if k = 27 then Inr (Terminated st)
      else
        (let vals = map (\<lambda>win. visible i (w_name win)) (fst st) in
         if \<not> list_ex (\<lambda>b. b) vals then Inr (Terminated st)
         else
           (case update_windows astype np_copy img (trackbar i) st of
              Inl e \<Rightarrow> Inl e
            | Inr st' \<Rightarrow> run_loop astype np_copy img rest st')))"

section \<open>Assembly\<close>

text \<open>
  What the list handed to \<^verbatim>\<open>run_pipe\<close> may hold: a Transform, a Window built by the
  caller (its name, the objects it was given as \<^verbatim>\<open>transforms\<close>, its
  \<^verbatim>\<open>last_output\<close>), or an object of any other class.
\<close>

datatype 'img obj =
    isinstance_Transform: TransformObj "'img Transform"
  | isinstance_Window: WindowObj string "'img obj list" "'img buffer"
  | OtherObj

text \<open>\<^verbatim>\<open>_check_group(items)\<close>.\<close>

fun check_group :: "'img obj list \<Rightarrow> exc + unit" where
  "check_group [] = Inr ()"
| "check_group (TransformObj t # items) = check_group items"
| "check_group (i # items) = Inl (TypeError ''Items must be Transforms or list of transforms'')"

text \<open>The Transforms among a Window's objects; after \<open>check_group\<close> these are all of them.\<close>

fun transforms_of :: "'img obj list \<Rightarrow> 'img Transform list" where
  "transforms_of [] = []"
| "transforms_of (TransformObj t # items) = t # transforms_of items"
| "transforms_of (i # items) = transforms_of items"

text \<open>\<^verbatim>\<open>_create_initial_groups(transforms)\<close>: the loop with its two lists.\<close>

fun groups_loop ::
  "'img obj list \<Rightarrow> 'img Window list \<Rightarrow> 'img Transform list \<Rightarrow>
   exc + ('img Window list \<times> 'img Transform list)" where
  "groups_loop [] groups non_groups = Inr (groups, non_groups)"
| "groups_loop (WindowObj name members lo # rest) groups non_groups =
     (case check_group members of
        Inl e \<Rightarrow> Inl e
      | Inr u \<Rightarrow>
          groups_loop rest
            (groups @ [\<lparr> w_name = name, w_transforms = transforms_of members,
                         w_last_output = lo \<rparr>])
            non_groups)"
| "groups_loop (OtherObj # rest) groups non_groups =
     Inl (ValueError ''Items must be Transforms or list of transforms'')"
| "groups_loop (TransformObj t # rest) groups non_groups =
     groups_loop rest groups (non_groups @ [t])"

definition create_initial_groups ::
  "'img obj list \<Rightarrow> exc + ('img Window list \<times> 'img Transform list)" where
  "create_initial_groups transforms = groups_loop transforms [] []"

text \<open>
  \<^verbatim>\<open>_collect_windows(transforms)\<close>, with the class attribute \<^verbatim>\<open>Window.counter\<close> passed
  in and returned.
\<close>

definition collect_windows ::
  "'img obj list \<Rightarrow> int \<Rightarrow> exc + ('img Window list \<times> int)" where
  "collect_windows transforms counter =
     (case create_initial_groups transforms of
        Inl e \<Rightarrow> Inl e
      | Inr (grouped, ungrouped) \<Rightarrow>
          if length ungrouped = length transforms
          then (let (w, counter') = Window_init ungrouped [] counter in Inr ([w], counter'))
          else if grouped \<noteq> [] \<and> ungrouped \<noteq> []
          then Inl (ValueError ''Cannot have both groups and non-groups together.'')
          else Inr (grouped, counter))"

text \<open>
  \<^verbatim>\<open>check_dup_win_labels(windows)\<close>. \<open>dup_message\<close> is the text of the f-string; the
  dictionary from the labels seen to the class names is a map.
\<close>

definition dup_message :: "string \<Rightarrow> string \<Rightarrow> string \<Rightarrow> string \<Rightarrow> string" where
  "dup_message label win_name cls cls_seen =
     ''Param: `'' @ label @ ''` is defined twice in window `'' @ win_name @ ''` '' @
     ''in transforms `'' @ cls @ ''` and '' @
     ''`'' @ cls_seen @ ''`. Rename one by changing the attribute '' @
     ''name or using the Param `label` kwarg.''"

fun dup_params ::
  "string \<Rightarrow> string \<Rightarrow> (string \<rightharpoonup> string) \<Rightarrow> params \<Rightarrow> exc + (string \<rightharpoonup> string)" where
  "dup_params win_name cls seen [] = Inr seen"
| "dup_params win_name cls seen ((label, p) # rest) =
     (case seen label of
        Some cls_seen \<Rightarrow> Inl (ValueError (dup_message label win_name cls cls_seen))
      | None \<Rightarrow> dup_params win_name cls (seen(label \<mapsto> cls)) rest)"

fun dup_transforms ::
  "string \<Rightarrow> (string \<rightharpoonup> string) \<Rightarrow> 'img Transform list \<Rightarrow> exc + (string \<rightharpoonup> string)" where
  "dup_transforms win_name seen [] = Inr seen"
| "dup_transforms win_name seen (t # rest) =
     (case dup_params win_name (t_class_name t) seen (t_params t) of
        Inl e \<Rightarrow> Inl e
      | Inr seen' \<Rightarrow> dup_transforms win_name seen' rest)"

fun check_dup_win_labels :: "'img Window list \<Rightarrow> exc + unit" where
  "check_dup_win_labels [] = Inr ()"
| "check_dup_win_labels (win # rest) =
     (case dup_transforms (w_name win) Map.empty (w_transforms win) of
        Inl e \<Rightarrow> Inl e
      | Inr seen \<Rightarrow> check_dup_win_labels rest)"

section \<open>run_pipe\<close>

text \<open>
  \<^verbatim>\<open>run_pipe(transforms, img)\<close> on a finite list of GUI readings. Creating the windows
  and the sliders and destroying the windows at the end are calls into the GUI that
  return nothing and are left out.
\<close>

definition run_pipe ::
  "('img \<Rightarrow> exc + 'img) \<Rightarrow> ('img buffer \<Rightarrow> 'img buffer) \<Rightarrow> 'img obj list \<Rightarrow> 'img buffer \<Rightarrow>
   int \<Rightarrow> tick_input list \<Rightarrow> exc + ('img Window list \<times> 'img display) outcome" where
  "run_pipe astype np_copy transforms img counter ticks =
     (case collect_windows transforms counter of
        Inl e \<Rightarrow> Inl e
      | Inr (windows, counter') \<Rightarrow>
          (case check_dup_win_labels windows of
             Inl e \<Rightarrow> Inl e
           | Inr u \<Rightarrow>
               (let orig = (if img = None then None else np_copy img) in
                case draw_windows astype windows orig [] of
                  Inl e \<Rightarrow> Inl e
                | Inr (windows', shown, r) \<Rightarrow>
                    run_loop astype np_copy img ticks (windows', shown))))"

section \<open>Notions used to state the properties\<close>

text \<open>
  A Transform whose hooks cannot make \<^verbatim>\<open>_draw\<close> raise, or return \<^verbatim>\<open>None\<close> on an
  image: \<^verbatim>\<open>compute_values\<close> returns on every dictionary of Params, whatever \<^verbatim>\<open>draw\<close>
  raises is of a class under \<^verbatim>\<open>Exception\<close>, and \<^verbatim>\<open>draw\<close> does not return
  \<^verbatim>\<open>None\<close> when it is given an image.
\<close>

definition hooks_caught :: "'img Transform \<Rightarrow> bool" where
  "hooks_caught t =
     ((\<forall>ps. \<exists>ps'. t_compute_values t ps = Inr ps') \<and>
      (\<forall>ps b e. t_draw t ps b = Inl e \<longrightarrow> isinstance_Exception e) \<and>
      (\<forall>ps a. t_draw t ps (Some a) \<noteq> Inr None))"

definition window_caught :: "'img Window \<Rightarrow> bool" where
  "window_caught w = (\<forall>t \<in> set (w_transforms w). hooks_caught t)"

text \<open>A Window that holds Transforms only, as the object the caller passes.\<close>

definition Window_obj :: "'img Window \<Rightarrow> 'img obj" where
  "Window_obj w = WindowObj (w_name w) (map TransformObj (w_transforms w)) (w_last_output w)"

text \<open>
  The labels of a Window in the order \<^verbatim>\<open>check_dup_win_labels\<close> meets them, each with
  the class name of the Transform that owns it; \<open>dup_flat\<close> is the scan on that list.
\<close>

definition transform_labels :: "'img Transform \<Rightarrow> (string \<times> string) list" where
  "transform_labels t = map (\<lambda>(label, p). (label, t_class_name t)) (t_params t)"

definition window_labels :: "'img Window \<Rightarrow> (string \<times> string) list" where
  "window_labels w = concat (map transform_labels (w_transforms w))"

fun dup_flat ::
  "string \<Rightarrow> (string \<rightharpoonup> string) \<Rightarrow> (string \<times> string) list \<Rightarrow> exc + (string \<rightharpoonup> string)" where
  "dup_flat win_name seen [] = Inr seen"
| "dup_flat win_name seen ((label, cls) # rest) =
     (case seen label of
        Some cls_seen \<Rightarrow> Inl (ValueError (dup_message label win_name cls cls_seen))
      | None \<Rightarrow> dup_flat win_name (seen(label \<mapsto> cls)) rest)"



section \<open>A small pipeline\<close>

text \<open>
  Two Transform subclasses on buffers that hold a number: \<^verbatim>\<open>Add\<close> declares
  \<^verbatim>\<open>amount = Param()\<close> and adds it, \<^verbatim>\<open>Scale\<close> declares \<^verbatim>\<open>factor = Param()\<close> and
  multiplies by it. \<^verbatim>\<open>Fail\<close> has a \<^verbatim>\<open>draw\<close> that always raises, \<^verbatim>\<open>Hook\<close> a
  \<^verbatim>\<open>compute_values\<close> that always raises.
\<close>

definition Add_class :: "(string \<times> attr_value) list" where
  "Add_class = [(''__module__'', OtherAttr),
                (''amount'', ParamAttr (Param_init [] 100 0 1 None)),
                (''draw'', OtherAttr)]"

definition Scale_class :: "(string \<times> attr_value) list" where
  "Scale_class = [(''__module__'', OtherAttr),
                  (''factor'', ParamAttr (Param_init [] 100 0 1 None)),
                  (''draw'', OtherAttr)]"

definition Add_draw :: "params \<Rightarrow> nat buffer \<Rightarrow> exc + nat buffer" where
  "Add_draw ps img =
     (case (img, map_of ps ''amount'') of
        (Some n, Some p) \<Rightarrow> Inr (Some (n + nat (p_value p)))
      | _ \<Rightarrow> Inl (TypeError ''unsupported operand''))"

definition Scale_draw :: "params \<Rightarrow> nat buffer \<Rightarrow> exc + nat buffer" where
  "Scale_draw ps img =
     (case (img, map_of ps ''factor'') of
        (Some n, Some p) \<Rightarrow> Inr (Some (n * nat (p_value p)))
      | _ \<Rightarrow> Inl (TypeError ''unsupported operand''))"

text \<open>The instances as the first pass over input 10 leaves them.\<close>

definition Add_t :: "nat Transform" where
  "Add_t = (Transform_init ''Add'' Add_class [] Inr Add_draw)
             \<lparr> t_last_output := Some 11,
               t_params := clear_dirty (snd (get_params (instance_dict []) Add_class)) \<rparr>"

definition Scale_t :: "nat Transform" where
  "Scale_t = (Transform_init ''Scale'' Scale_class [] Inr Scale_draw)
               \<lparr> t_last_output := Some 11,
                 t_params := clear_dirty (snd (get_params (instance_dict []) Scale_class)) \<rparr>"

definition Fail_t :: "nat Transform" where
  "Fail_t = Transform_init ''Fail'' Scale_class [] Inr (\<lambda>ps img. Inl (Exception ''bad kernel''))"

definition Hook_t :: "nat Transform" where
  "Hook_t =
     Transform_init ''Hook'' Scale_class [] (\<lambda>ps. Inl (Exception ''boom'')) (\<lambda>ps img. Inr img)"

definition two_windows :: "nat Window list" where
  "two_windows =
     [\<lparr> w_name = ''Step 1'', w_transforms = [Add_t], w_last_output = Some 11 \<rparr>,
      \<lparr> w_name = ''Step 2'', w_transforms = [Scale_t], w_last_output = Some 11 \<rparr>]"

definition one_window :: "nat Window" where
  "one_window = \<lparr> w_name = ''Both'', w_transforms = [Add_t, Scale_t], w_last_output = Some 11 \<rparr>"

text \<open>
  Slider readings: nothing moved; only \<^verbatim>\<open>factor\<close> moved to 3; every slider moved
  to 7.
\<close>

definition sliders_same :: trackbars where
  "sliders_same label win_name = 1"

definition sliders_factor :: trackbars where
  "sliders_factor label win_name = (if label = ''factor'' then 3 else 1)"

definition sliders_all :: trackbars where
  "sliders_all label win_name = 7"

definition tick_all :: tick_input where
  "tick_all = \<lparr> key = - 1, visible = (\<lambda>name. True), trackbar = sliders_all \<rparr>"

text \<open>A Window in which the label \<^verbatim>\<open>factor\<close> is declared by two Transforms.\<close>

definition dup_window :: "nat Window" where
  "dup_window = \<lparr> w_name = ''Dup'', w_transforms = [Scale_t, Add_t, Fail_t], w_last_output = None \<rparr>"



section \<open>Param: clamping\<close>

lemma update_value_pos: "p_pos (update_value tb p wn) = tb (p_label p) wn"
  by (simp add: update_value_def Let_def)

lemma update_value_clamps:
  "p_value (update_value tb p wn) =
     (case p_adjust p of
        None \<Rightarrow> max (p_min p) (tb (p_label p) wn)
      | Some f \<Rightarrow> max (p_min p) (f (tb (p_label p) wn)))"
  by (simp add: update_value_def Let_def max.commute split: option.splits)

lemma update_value_frame:
  "p_label (update_value tb p wn) = p_label p"
  "p_min (update_value tb p wn) = p_min p"
  "p_max (update_value tb p wn) = p_max p"
  "p_adjust (update_value tb p wn) = p_adjust p"
  "p_default (update_value tb p wn) = p_default p"
  by (simp_all add: update_value_def Let_def)

lemma update_value_dirty: "p_dirty (update_value tb p wn) = (p_pos p \<noteq> tb (p_label p) wn)"
  by (simp add: update_value_def Let_def)

lemma Param_init_no_adjust:
  "p_value (Param_init label mx mn dflt None) = max mn (p_pos (Param_init label mx mn dflt None))"
  by (simp add: Param_init_def Let_def)

lemma Param_init_min0_default_neg5: "p_value (Param_init label mx 0 (- 5) None) = 0"
  by (simp add: Param_init_def Let_def)

text \<open>
  C4. After construction the value of a Param with an adjustment is the adjusted
  position, not clamped from below again: with \<^verbatim>\<open>_min=0, default=1\<close> and the adjustment
  \<^verbatim>\<open>lambda x: x - 5\<close> the position is 1 and the value is \<open>-4\<close>, while
  \<open>max(min, adjust(position))\<close> is 0. The first synchronization at the same position
  gives the value 0 and leaves the Param clean.
\<close>

theorem Param_init_adjust_not_clamped:
  "p_pos (Param_init '''' 100 0 1 (Some (\<lambda>x. x - 5))) = 1 \<and>
   p_value (Param_init '''' 100 0 1 (Some (\<lambda>x. x - 5))) = - 4 \<and>
   max (0::int) ((\<lambda>x. x - 5) 1) = 0 \<and>
   p_value (update_value (\<lambda>l w. 1) (Param_init '''' 100 0 1 (Some (\<lambda>x. x - 5))) ''Step 1'') = 0 \<and>
   p_dirty (update_value (\<lambda>l w. 1) (Param_init '''' 100 0 1 (Some (\<lambda>x. x - 5))) ''Step 1'') = False"
  by (simp add: Param_init_def update_value_def Let_def)

section \<open>Transform: the render step\<close>

lemma Transform__draw_hooks:
  "Transform__draw t img = Inr (t', r) \<Longrightarrow>
     t_compute_values t' = t_compute_values t \<and> t_draw t' = t_draw t \<and>
     t_class_name t' = t_class_name t"
  by (auto simp: Transform__draw_def split: sum.splits if_splits)

lemma Transform__draw_returns:
  assumes "hooks_caught t"
  shows "\<exists>t' r. Transform__draw t (Some a) = Inr (t', r) \<and> r \<noteq> None"
proof -
  from assms obtain ps where ps: "t_compute_values t (t_params t) = Inr ps"
    unfolding hooks_caught_def by blast
  show ?thesis
  proof (cases "t_draw t ps (Some a)")
    case (Inl e)
    with assms have "isinstance_Exception e" unfolding hooks_caught_def by blast
    with ps Inl show ?thesis by (simp add: Transform__draw_def)
  next
    case (Inr r)
    with assms have "r \<noteq> None" unfolding hooks_caught_def by metis
    with ps Inr show ?thesis by (simp add: Transform__draw_def)
  qed
qed

lemma Transform__draw_caught:
  "hooks_caught t \<Longrightarrow> Transform__draw t img = Inr (t', r) \<Longrightarrow> hooks_caught t'"
  using Transform__draw_hooks[of t img t' r] by (simp add: hooks_caught_def)

lemma draw_loop_returns:
  "\<forall>t \<in> set ts. hooks_caught t \<Longrightarrow>
     \<exists>ts' r. draw_loop ts (Some a) = Inr (ts', r) \<and> (\<forall>t \<in> set ts'. hooks_caught t) \<and>
       r \<noteq> None"
proof (induction ts arbitrary: a)
  case Nil
  then show ?case by simp
next
  case (Cons t ts)
  then obtain t' r where t': "Transform__draw t (Some a) = Inr (t', r)" and r: "r \<noteq> None"
    using Transform__draw_returns[of t a] by auto
  with Cons.prems have c: "hooks_caught t'" using Transform__draw_caught by fastforce
  from r obtain a' where a': "r = Some a'" by auto
  from Cons.IH[of a'] Cons.prems obtain ts' r' where
    "draw_loop ts (Some a') = Inr (ts', r')" "\<forall>t \<in> set ts'. hooks_caught t" "r' \<noteq> None"
    by auto
  with t' c a' show ?case by simp
qed

lemma Window_draw_returns:
  assumes "window_caught w" and "\<forall>x. \<exists>f. astype x = Inr f"
  shows "\<exists>w' shown' r. Window_draw astype w (Some a) shown = Inr (w', shown', r) \<and>
           window_caught w' \<and> w_last_output w' \<noteq> None \<and> r \<noteq> None"
proof -
  from assms(1) draw_loop_returns[of "w_transforms w" a] obtain ts' r where
    d: "draw_loop (w_transforms w) (Some a) = Inr (ts', r)"
    and c: "\<forall>t \<in> set ts'. hooks_caught t" and r: "r \<noteq> None"
    unfolding window_caught_def by blast
  from r obtain x where x: "r = Some x" by auto
  from assms(2) obtain f where "astype x = Inr f" by blast
  with d c x show ?thesis
    by (simp add: Window_draw_def astype_uint8_def window_caught_def)
qed

lemma draw_windows_returns:
  assumes "\<forall>x. \<exists>f. astype x = Inr f"
  shows "\<forall>w \<in> set ws. window_caught w \<Longrightarrow>
     \<exists>ws' shown' r. draw_windows astype ws (Some a) shown = Inr (ws', shown', r) \<and>
       (\<forall>w \<in> set ws'. window_caught w \<and> w_last_output w \<noteq> None)"
proof (induction ws arbitrary: a shown)
  case Nil
  then show ?case by simp
next
  case (Cons w ws)
  then have "window_caught w" by simp
  from Window_draw_returns[OF this assms, of a shown] obtain w' s' r where
    w': "Window_draw astype w (Some a) shown = Inr (w', s', r)" "window_caught w'"
      "w_last_output w' \<noteq> None" and r: "r \<noteq> None"
    by blast
  from r obtain a' where a': "r = Some a'" by auto
  from Cons.IH[of a' s'] Cons.prems obtain ws' s'' r' where
    "draw_windows astype ws (Some a') s' = Inr (ws', s'', r')"
    "\<forall>w \<in> set ws'. window_caught w \<and> w_last_output w \<noteq> None" by auto
  with w' a' show ?case by simp
qed

section \<open>Synchronization and the dirty index\<close>

lemma update_params_frame:
  "t_last_output (update_params tb t wn) = t_last_output t"
  "t_class_name (update_params tb t wn) = t_class_name t"
  "t_compute_values (update_params tb t wn) = t_compute_values t"
  "t_draw (update_params tb t wn) = t_draw t"
  by (simp_all add: update_params_def)

lemma update_params_params:
  "t_params (update_params tb t wn) = map (\<lambda>(l, p). (l, update_value tb p wn)) (t_params t)"
  by (simp add: update_params_def)

lemma update_params_caught: "hooks_caught (update_params tb t wn) = hooks_caught t"
  by (simp add: update_params_def hooks_caught_def)

lemma dirty_loop_caught:
  "\<forall>t \<in> set ts. hooks_caught t \<Longrightarrow> \<forall>t \<in> set (snd (dirty_loop tb wn i ts)). hooks_caught t"
proof (induction ts arbitrary: i)
  case Nil
  then show ?case by simp
next
  case (Cons t ts)
  from Cons.IH[of "i + 1"] Cons.prems
  have "\<forall>t \<in> set (snd (dirty_loop tb wn (i + 1) ts)). hooks_caught t" by simp
  with Cons.prems show ?case
    by (auto simp: Let_def update_params_caught split: prod.splits)
qed

lemma Window_dirty_caught: "window_caught w \<Longrightarrow> window_caught (snd (Window_dirty tb w))"
  using dirty_loop_caught[of "w_transforms w" tb "w_name w" 0]
  by (auto simp: window_caught_def Window_dirty_def split: prod.splits)

lemma dirty_all_caught:
  "\<forall>w \<in> set ws. window_caught w \<Longrightarrow> \<forall>w \<in> set (snd (dirty_all tb ws)). window_caught w"
proof (induction ws)
  case Nil
  then show ?case by simp
next
  case (Cons w ws)
  then show ?case using Window_dirty_caught[of w tb]
    by (auto split: prod.splits)
qed

lemma dirty_loop_clean:
  "\<forall>t \<in> set ts. \<not> Transform_dirty (update_params tb t wn) \<Longrightarrow>
     dirty_loop tb wn i ts = (- 1, map (\<lambda>t. update_params tb t wn) ts)"
  by (induction ts arbitrary: i) (simp_all add: Let_def)

lemma dirty_loop_first:
  "k < length ts \<Longrightarrow> Transform_dirty (update_params tb (ts ! k) wn) \<Longrightarrow>
   \<forall>j < k. \<not> Transform_dirty (update_params tb (ts ! j) wn) \<Longrightarrow>
     dirty_loop tb wn i ts =
       (i + int k, map (\<lambda>t. update_params tb t wn) (take (Suc k) ts) @ drop (Suc k) ts)"
proof (induction ts arbitrary: i k)
  case Nil
  then show ?case by simp
next
  case (Cons t ts)
  show ?case
  proof (cases k)
    case 0
    with Cons.prems show ?thesis by (simp add: Let_def)
  next
    case (Suc k')
    from Cons.prems Suc have c: "\<not> Transform_dirty (update_params tb t wn)" by auto
    from Cons.prems Suc have "k' < length ts" "Transform_dirty (update_params tb (ts ! k') wn)"
      "\<forall>j < k'. \<not> Transform_dirty (update_params tb (ts ! j) wn)" by auto
    from Cons.IH[OF this, of "i + 1"] c Suc show ?thesis by (simp add: Let_def)
  qed
qed

lemma dirty_loop_range: "fst (dirty_loop tb wn i ts) = - 1 \<or> i \<le> fst (dirty_loop tb wn i ts)"
proof (induction ts arbitrary: i)
  case Nil
  then show ?case by simp
next
  case (Cons t ts)
  from Cons.IH[of "i + 1"] show ?case by (auto simp: Let_def split: prod.splits)
qed

lemma dirty_loop_frame:
  "map t_last_output (snd (dirty_loop tb wn i ts)) = map t_last_output ts"
proof (induction ts arbitrary: i)
  case Nil
  then show ?case by simp
next
  case (Cons t ts)
  from Cons.IH[of "i + 1"] show ?case
    by (auto simp: Let_def update_params_frame split: prod.splits)
qed

lemma Window_dirty_frame:
  "w_name (snd (Window_dirty tb w)) = w_name w"
  "w_last_output (snd (Window_dirty tb w)) = w_last_output w"
  "map t_last_output (w_transforms (snd (Window_dirty tb w))) = map t_last_output (w_transforms w)"
  using dirty_loop_frame[of tb "w_name w" 0 "w_transforms w"]
  by (auto simp: Window_dirty_def split: prod.splits)

lemma Window_dirty_range: "fst (Window_dirty tb w) = - 1 \<or> 0 \<le> fst (Window_dirty tb w)"
  using dirty_loop_range[of tb "w_name w" 0 "w_transforms w"]
  by (auto simp: Window_dirty_def split: prod.splits)

lemma dirty_all_map:
  "dirty_all tb ws =
     (map (\<lambda>w. fst (Window_dirty tb w)) ws, map (\<lambda>w. snd (Window_dirty tb w)) ws)"
  by (induction ws) (auto split: prod.splits)

section \<open>The loop body\<close>

lemma first_true_first:
  "k < length bs \<Longrightarrow> bs ! k \<Longrightarrow> \<forall>j < k. \<not> bs ! j \<Longrightarrow> first_true bs = k"
proof (induction bs arbitrary: k)
  case Nil
  then show ?case by simp
next
  case (Cons b bs)
  show ?case
  proof (cases k)
    case 0
    with Cons.prems show ?thesis by simp
  next
    case (Suc k')
    with Cons.prems have "\<not> b" by auto
    moreover from Cons.prems Suc have "first_true bs = k'"
      by (intro Cons.IH) auto
    ultimately show ?thesis using Suc by simp
  qed
qed

lemma argmax_first:
  "k < length bs \<Longrightarrow> bs ! k \<Longrightarrow> \<forall>j < k. \<not> bs ! j \<Longrightarrow> argmax bs = k"
  using first_true_first[of k bs] by (auto simp: argmax_def list_ex_iff in_set_conv_nth)

lemma argmax_range: "argmax bs = 0 \<or> argmax bs < length bs"
proof -
  have "list_ex (\<lambda>b. b) bs \<Longrightarrow> first_true bs < length bs"
    by (induction bs) auto
  then show ?thesis by (auto simp: argmax_def)
qed

lemma Window_draw_Inr:
  assumes "Window_draw astype w input shown = Inr (w1, s1, r1)"
  shows "\<exists>f. astype_uint8 astype r1 = Inr f \<and> s1 = shown @ [(w_name w, f)] \<and>
           w_last_output w1 = r1 \<and> w_name w1 = w_name w \<and>
           Window_draw astype w input [] = Inr (w1, [(w_name w, f)], r1)"
  using assms by (auto simp: Window_draw_def split: sum.splits)

lemma draw_windows_frames:
  "draw_windows astype ws input shown = Inr (ws', shown', r) \<Longrightarrow>
     length ws' = length ws \<and> map w_name ws' = map w_name ws \<and>
     (\<exists>frames. shown' = shown @ frames \<and> map fst frames = map w_name ws \<and>
        map (\<lambda>f. Inr (snd f)) frames =
          map (\<lambda>w. astype_uint8 astype (w_last_output w)) ws') \<and>
     r = last (input # map w_last_output ws')"
proof (induction ws arbitrary: input shown ws' shown' r)
  case Nil
  then show ?case by simp
next
  case (Cons w ws)
  from Cons.prems obtain w1 s1 r1 ws1 where
    w1: "Window_draw astype w input shown = Inr (w1, s1, r1)" and
    ws1: "draw_windows astype ws r1 s1 = Inr (ws1, shown', r)" and
    eq: "ws' = w1 # ws1"
    by (auto split: sum.splits)
  from Window_draw_Inr[OF w1] obtain f where
    f: "astype_uint8 astype r1 = Inr f" "s1 = shown @ [(w_name w, f)]"
       "w_last_output w1 = r1" "w_name w1 = w_name w"
    by blast
  from Cons.IH[OF ws1] obtain frames where
    i: "length ws1 = length ws" "map w_name ws1 = map w_name ws"
       "shown' = s1 @ frames" "map fst frames = map w_name ws"
       "map (\<lambda>f. Inr (snd f)) frames = map (\<lambda>w. astype_uint8 astype (w_last_output w)) ws1"
       "r = last (r1 # map w_last_output ws1)"
    by blast
  have "\<exists>frames. shown' = shown @ frames \<and> map fst frames = map w_name (w # ws) \<and>
        map (\<lambda>f. Inr (snd f)) frames =
          map (\<lambda>w. astype_uint8 astype (w_last_output w)) ws'"
    using f i eq by (intro exI[of _ "(w_name w, f) # frames"]) simp
  with f i eq show ?case by simp
qed

lemma draw_windows_nth:
  "draw_windows astype ws input shown = Inr (ws', shown', r) \<Longrightarrow> i < length ws \<Longrightarrow>
     \<exists>f. astype_uint8 astype (w_last_output (ws' ! i)) = Inr f \<and>
       Window_draw astype (ws ! i) (if i = 0 then input else w_last_output (ws' ! (i - 1))) [] =
         Inr (ws' ! i, [(w_name (ws ! i), f)], w_last_output (ws' ! i))"
proof (induction ws arbitrary: input shown ws' shown' r i)
  case Nil
  then show ?case by simp
next
  case (Cons w ws)
  from Cons.prems obtain w1 s1 r1 ws1 where
    w1: "Window_draw astype w input shown = Inr (w1, s1, r1)" and
    ws1: "draw_windows astype ws r1 s1 = Inr (ws1, shown', r)" and
    eq: "ws' = w1 # ws1"
    by (auto split: sum.splits)
  from Window_draw_Inr[OF w1] obtain f where
    f: "astype_uint8 astype r1 = Inr f" "w_last_output w1 = r1"
    and g: "Window_draw astype w input [] = Inr (w1, [(w_name w, f)], r1)"
    by blast
  show ?case
  proof (cases i)
    case 0
    with f g eq show ?thesis by simp
  next
    case (Suc i')
    with Cons.prems have "i' < length ws" by simp
    from Cons.IH[OF ws1 this] Suc eq f show ?thesis
      by (cases i') auto
  qed
qed

lemma update_windows_offset:
  assumes "dirty_all tb (fst st) = (ds, ws)"
    and "\<not> list_all (\<lambda>b. b) (map (\<lambda>d. d = - 1) ds)"
  shows "update_windows astype np_copy img tb st =
      (case draw_windows astype (drop (argmax (map (\<lambda>d. d \<ge> 0) ds)) ws)
              (if argmax (map (\<lambda>d. d \<ge> 0) ds) = 0 then np_copy img
               else w_last_output (ws ! (argmax (map (\<lambda>d. d \<ge> 0) ds) - 1))) (snd st) of
         Inl e \<Rightarrow> Inl e
       | Inr (drawn, shown', r) \<Rightarrow>
           Inr (take (argmax (map (\<lambda>d. d \<ge> 0) ds)) ws @ drawn, shown'))"
  using assms unfolding update_windows_def Let_def
  by (simp split del: if_split)

lemma update_windows_first_dirty:
  assumes k: "k < length ws"
    and dk: "fst (Window_dirty tb (ws ! k)) \<noteq> - 1"
    and clean: "\<forall>j < k. fst (Window_dirty tb (ws ! j)) = - 1"
  shows "update_windows astype np_copy img tb (ws, shown) =
      (case draw_windows astype (drop k (map (\<lambda>w. snd (Window_dirty tb w)) ws))
              (if k = 0 then np_copy img else w_last_output (ws ! (k - 1))) shown of
         Inl e \<Rightarrow> Inl e
       | Inr (drawn, shown', r) \<Rightarrow>
           Inr (take k (map (\<lambda>w. snd (Window_dirty tb w)) ws) @ drawn, shown'))"
proof -
  let ?ds = "map (\<lambda>w. fst (Window_dirty tb w)) ws"
  let ?ws = "map (\<lambda>w. snd (Window_dirty tb w)) ws"
  have nc: "\<not> list_all (\<lambda>b. b) (map (\<lambda>d. d = - 1) ?ds)"
    using k dk by (auto simp: list_all_iff)
  have "0 \<le> fst (Window_dirty tb (ws ! k))"
    using Window_dirty_range[of tb "ws ! k"] dk by auto
  then have a: "k = argmax (map (\<lambda>d. d \<ge> 0) ?ds)"
    using k clean by (intro argmax_first[symmetric]) auto
  have l: "(if k = 0 then np_copy img else w_last_output (?ws ! (k - 1))) =
           (if k = 0 then np_copy img else w_last_output (ws ! (k - 1)))"
    using k by (simp add: Window_dirty_frame)
  have d: "dirty_all tb (fst (ws, shown)) = (?ds, ?ws)" by (simp add: dirty_all_map)
  show ?thesis
    using update_windows_offset[OF d nc, of astype np_copy img] unfolding a[symmetric]
    by (simp only: l snd_conv)
qed

lemma update_windows_returns:
  assumes "\<forall>w \<in> set (fst st). window_caught w \<and> w_last_output w \<noteq> None"
    and "np_copy img \<noteq> None"
    and "\<forall>x. \<exists>f. astype x = Inr f"
  shows "\<exists>st'. update_windows astype np_copy img tb st = Inr st' \<and>
           (\<forall>w \<in> set (fst st'). window_caught w \<and> w_last_output w \<noteq> None)"
proof -
  let ?ds = "map (\<lambda>w. fst (Window_dirty tb w)) (fst st)"
  let ?ws = "map (\<lambda>w. snd (Window_dirty tb w)) (fst st)"
  have d: "dirty_all tb (fst st) = (?ds, ?ws)" by (rule dirty_all_map)
  have ws: "\<forall>w \<in> set ?ws. window_caught w \<and> w_last_output w \<noteq> None"
    using assms(1) by (auto simp: Window_dirty_caught Window_dirty_frame)
  show ?thesis
  proof (cases "list_all (\<lambda>b. b) (map (\<lambda>d. d = - 1) ?ds)")
    case True
    with d ws show ?thesis by (simp add: update_windows_def)
  next
    case False
    define offset where "offset = argmax (map (\<lambda>d. d \<ge> 0) ?ds)"
    define input where
      "input = (if offset = 0 then np_copy img else w_last_output (?ws ! (offset - 1)))"
    have "offset = 0 \<or> offset < length ?ws"
      using argmax_range[of "map (\<lambda>d. d \<ge> 0) ?ds"] by (simp add: offset_def)
    then have "offset \<noteq> 0 \<Longrightarrow> ?ws ! (offset - 1) \<in> set ?ws"
      by (intro nth_mem) auto
    with ws assms(2) have "input \<noteq> None" by (auto simp: input_def)
    then obtain a where a: "input = Some a" by auto
    have "\<forall>w \<in> set (drop offset ?ws). window_caught w" using ws by (meson in_set_dropD)
    from draw_windows_returns[OF assms(3) this, of a "snd st"] a obtain ws' s' r where
      dw: "draw_windows astype (drop offset ?ws) input (snd st) = Inr (ws', s', r)"
      and c: "\<forall>w \<in> set ws'. window_caught w \<and> w_last_output w \<noteq> None" by blast
    have "\<forall>w \<in> set (take offset ?ws). window_caught w \<and> w_last_output w \<noteq> None"
      using ws by (meson in_set_takeD)
    with c have t: "\<forall>w \<in> set (take offset ?ws @ ws').
        window_caught w \<and> w_last_output w \<noteq> None"
      unfolding set_append by blast
    have "update_windows astype np_copy img tb st =
            (case draw_windows astype (drop offset ?ws) input (snd st) of
               Inl e \<Rightarrow> Inl e
             | Inr (drawn, shown, r) \<Rightarrow> Inr (take offset ?ws @ drawn, shown))"
      using update_windows_offset[OF d False] unfolding offset_def input_def .
    with dw t show ?thesis by simp
  qed
qed

lemma run_loop_returns:
  assumes "np_copy img \<noteq> None" and "\<forall>x. \<exists>f. astype x = Inr f"
  shows "\<forall>w \<in> set (fst st). window_caught w \<and> w_last_output w \<noteq> None \<Longrightarrow>
     \<exists>r. run_loop astype np_copy img ticks st = Inr r"
proof (induction ticks arbitrary: st)
  case Nil
  then show ?case by simp
next
  case (Cons i ticks)
  from update_windows_returns[where st = st and np_copy = np_copy and img = img
      and astype = astype and tb = "trackbar i"] Cons.prems assms obtain st' where
    "update_windows astype np_copy img (trackbar i) st = Inr st'"
    "\<forall>w \<in> set (fst st'). window_caught w \<and> w_last_output w \<noteq> None"
    by blast
  with Cons.IH[of st'] show ?case by (auto simp: Let_def)
qed

section \<open>Grouping\<close>

lemma check_group_Transforms: "check_group (map TransformObj ts) = Inr ()"
  by (induction ts) simp_all

lemma transforms_of_Transforms: "transforms_of (map TransformObj ts) = ts"
  by (induction ts) simp_all

lemma groups_loop_Transforms:
  "groups_loop (map TransformObj ts) groups non_groups = Inr (groups, non_groups @ ts)"
  by (induction ts arbitrary: non_groups) simp_all

lemma groups_loop_Windows:
  "groups_loop (map Window_obj ws) groups non_groups = Inr (groups @ ws, non_groups)"
  by (induction ws arbitrary: groups)
     (simp_all add: Window_obj_def check_group_Transforms transforms_of_Transforms)

lemma groups_loop_lengths:
  "groups_loop items groups non_groups = Inr (g, n) \<Longrightarrow>
     length g = length groups + length (filter isinstance_Window items) \<and>
     length n = length non_groups + length (filter isinstance_Transform items) \<and>
     length items =
       length (filter isinstance_Window items) + length (filter isinstance_Transform items)"
proof (induction items groups non_groups rule: groups_loop.induct)
  case (1 groups non_groups)
  then show ?case by simp
next
  case (2 name members lo rest groups non_groups)
  then show ?case by (auto split: sum.splits)
next
  case (3 rest groups non_groups)
  then show ?case by simp
next
  case (4 t rest groups non_groups)
  then show ?case by auto
qed

lemma groups_loop_bad_member:
  "WindowObj name members lo \<in> set items \<Longrightarrow> check_group members \<noteq> Inr () \<Longrightarrow>
     \<exists>e. groups_loop items groups non_groups = Inl e"
proof (induction items groups non_groups rule: groups_loop.induct)
  case (1 groups non_groups)
  then show ?case by simp
next
  case (2 name' members' lo' rest groups non_groups)
  then show ?case by (cases "check_group members'") auto
next
  case (3 rest groups non_groups)
  then show ?case by simp
next
  case (4 t rest groups non_groups)
  then show ?case by auto
qed

lemma collect_windows_Transforms:
  "collect_windows (map TransformObj ts) counter =
     Inr ([\<lparr> w_name = ''Step '' @ str_int counter, w_transforms = ts, w_last_output = None \<rparr>],
          counter + 1)"
  by (simp add: collect_windows_def create_initial_groups_def groups_loop_Transforms
        Window_init_def)

lemma collect_windows_mixed:
  assumes "\<exists>i \<in> set items. isinstance_Window i" and "\<exists>i \<in> set items. isinstance_Transform i"
  shows "\<exists>e. collect_windows items counter = Inl e"
proof (cases "groups_loop items [] []")
  case (Inl e)
  then show ?thesis by (simp add: collect_windows_def create_initial_groups_def)
next
  case (Inr gn)
  obtain g n where gn: "gn = (g, n)" by (cases gn)
  from assms have "filter isinstance_Window items \<noteq> []" "filter isinstance_Transform items \<noteq> []"
    by (auto simp: filter_empty_conv)
  then have "0 < length (filter isinstance_Window items)"
    "0 < length (filter isinstance_Transform items)"
    by auto
  with groups_loop_lengths[of items "[]" "[]" g n] Inr gn
  have "g \<noteq> []" "n \<noteq> []" "length n \<noteq> length items" by auto
  with Inr gn show ?thesis by (simp add: collect_windows_def create_initial_groups_def)
qed

lemma collect_windows_Windows:
  "ws \<noteq> [] \<Longrightarrow> collect_windows (map Window_obj ws) counter = Inr (ws, counter)"
  by (simp add: collect_windows_def create_initial_groups_def groups_loop_Windows)

lemma collect_windows_bad_member:
  "WindowObj name members lo \<in> set items \<Longrightarrow> check_group members \<noteq> Inr () \<Longrightarrow>
     \<exists>e. collect_windows items counter = Inl e"
  using groups_loop_bad_member[of name members lo items "[]" "[]"]
  by (auto simp: collect_windows_def create_initial_groups_def)

section \<open>Label collisions\<close>

lemma dup_params_flat:
  "dup_params wn cls seen ps = dup_flat wn seen (map (\<lambda>(label, p). (label, cls)) ps)"
  by (induction ps arbitrary: seen) (auto split: option.splits)

lemma dup_flat_append:
  "dup_flat wn seen (xs @ ys) =
     (case dup_flat wn seen xs of Inl e \<Rightarrow> Inl e | Inr seen' \<Rightarrow> dup_flat wn seen' ys)"
  by (induction xs arbitrary: seen) (auto split: option.splits)

lemma dup_transforms_flat:
  "dup_transforms wn seen ts = dup_flat wn seen (concat (map transform_labels ts))"
  by (induction ts arbitrary: seen)
     (auto simp: dup_flat_append dup_params_flat transform_labels_def split: sum.splits)

lemma upd_unseen:
  "(\<forall>y \<in> set xs. (seen(l \<mapsto> c)) (fst y) = None) \<longleftrightarrow>
     l \<notin> fst ` set xs \<and> (\<forall>y \<in> set xs. seen (fst y) = None)"
  by (force split: if_splits)

lemma dup_flat_Inr:
  "(\<exists>s. dup_flat wn seen xs = Inr s) \<longleftrightarrow>
     distinct (map fst xs) \<and> (\<forall>x \<in> set xs. seen (fst x) = None)"
proof (induction xs arbitrary: seen)
  case Nil
  then show ?case by simp
next
  case (Cons x xs)
  obtain l c where x: "x = (l, c)" by (cases x)
  show ?case
  proof (cases "seen l")
    case None
    have "(\<exists>s. dup_flat wn seen (x # xs) = Inr s) \<longleftrightarrow>
          (\<exists>s. dup_flat wn (seen(l \<mapsto> c)) xs = Inr s)"
      using None x by simp
    also have "\<dots> \<longleftrightarrow>
          distinct (map fst xs) \<and> (\<forall>y \<in> set xs. (seen(l \<mapsto> c)) (fst y) = None)"
      by (rule Cons.IH)
    also have "\<dots> \<longleftrightarrow>
          distinct (map fst (x # xs)) \<and> (\<forall>y \<in> set (x # xs). seen (fst y) = None)"
      unfolding upd_unseen using None x by auto
    finally show ?thesis .
  next
    case (Some a)
    with x show ?thesis by auto
  qed
qed

lemma dup_flat_Inl:
  "dup_flat wn seen xs = Inl e \<longleftrightarrow>
     (\<exists>front l cls behind c. xs = front @ (l, cls) # behind \<and> distinct (map fst front) \<and>
        (\<forall>x \<in> set front. seen (fst x) = None) \<and>
        (seen l = Some c \<or> (l, c) \<in> set front) \<and>
        e = ValueError (dup_message l wn cls c))"
  (is "?L seen xs \<longleftrightarrow> ?R seen xs")
proof
  show "?L seen xs \<Longrightarrow> ?R seen xs"
  proof (induction xs arbitrary: seen)
    case Nil
    then show ?case by simp
  next
    case (Cons x xs)
    obtain l0 c0 where x: "x = (l0, c0)" by (cases x)
    show ?case
    proof (cases "seen l0")
      case (Some c)
      with Cons.prems x have e: "e = ValueError (dup_message l0 wn c0 c)" by simp
      show ?thesis
        apply (rule exI[of _ "[]"], rule exI[of _ l0], rule exI[of _ c0],
               rule exI[of _ xs], rule exI[of _ c])
        using Some x e by simp
    next
      case None
      with Cons.prems x have "dup_flat wn (seen(l0 \<mapsto> c0)) xs = Inl e" by simp
      from Cons.IH[OF this] obtain front l cls behind c where
        d: "xs = front @ (l, cls) # behind" "distinct (map fst front)"
           "\<forall>x \<in> set front. (seen(l0 \<mapsto> c0)) (fst x) = None"
           "(seen(l0 \<mapsto> c0)) l = Some c \<or> (l, c) \<in> set front"
           "e = ValueError (dup_message l wn cls c)" by blast
      from d(3) have n0: "l0 \<notin> fst ` set front"
        and n1: "\<forall>x \<in> set front. seen (fst x) = None"
        unfolding upd_unseen by simp_all
      from d(4) have n2: "seen l = Some c \<or> (l, c) \<in> set ((l0, c0) # front)"
        by (auto split: if_splits)
      show ?thesis
        apply (rule exI[of _ "(l0, c0) # front"], rule exI[of _ l], rule exI[of _ cls],
               rule exI[of _ behind], rule exI[of _ c])
        using d(1,2,5) n0 n1 n2 None x by auto
    qed
  qed
next
  assume "?R seen xs"
  then obtain front l cls behind c where
    d: "xs = front @ (l, cls) # behind" "distinct (map fst front)"
       "\<forall>x \<in> set front. seen (fst x) = None"
       "seen l = Some c \<or> (l, c) \<in> set front"
       "e = ValueError (dup_message l wn cls c)" by blast
  from d(2,3,4)
  have "dup_flat wn seen (front @ (l, cls) # behind) = Inl (ValueError (dup_message l wn cls c))"
  proof (induction front arbitrary: seen)
    case Nil
    then show ?case by simp
  next
    case (Cons x front)
    obtain l0 c0 where x: "x = (l0, c0)" by (cases x)
    from Cons.prems x have s0: "seen l0 = None" by simp
    have a: "distinct (map fst front)" using Cons.prems by simp
    have b: "\<forall>y \<in> set front. (seen(l0 \<mapsto> c0)) (fst y) = None"
      unfolding upd_unseen using Cons.prems x by auto
    have c: "(seen(l0 \<mapsto> c0)) l = Some c \<or> (l, c) \<in> set front"
      using Cons.prems(3) x s0 by auto
    have step: "dup_flat wn seen (x # front @ (l, cls) # behind) =
                dup_flat wn (seen(l0 \<mapsto> c0)) (front @ (l, cls) # behind)"
      using s0 x by simp
    show ?case unfolding append_Cons step
      by (rule Cons.IH[of "seen(l0 \<mapsto> c0)", OF a b c])
  qed
  with d show "?L seen xs" by simp
qed

lemma dup_window_Inl:
  "dup_transforms (w_name w) Map.empty (w_transforms w) = Inl e \<longleftrightarrow>
     (\<exists>front l cls behind c. window_labels w = front @ (l, cls) # behind \<and>
        distinct (map fst front) \<and> (l, c) \<in> set front \<and>
        e = ValueError (dup_message l (w_name w) cls c))"
  by (simp add: dup_transforms_flat dup_flat_Inl window_labels_def)

lemma dup_window_Inr:
  "(\<exists>s. dup_transforms (w_name w) Map.empty (w_transforms w) = Inr s) \<longleftrightarrow>
     distinct (map fst (window_labels w))"
  by (simp add: dup_transforms_flat dup_flat_Inr window_labels_def)

lemma check_dup_Inr:
  "check_dup_win_labels ws = Inr () \<longleftrightarrow> (\<forall>w \<in> set ws. distinct (map fst (window_labels w)))"
proof (induction ws)
  case Nil
  then show ?case by simp
next
  case (Cons w ws)
  show ?case
  proof (cases "dup_transforms (w_name w) Map.empty (w_transforms w)")
    case (Inl e)
    with dup_window_Inr[of w] show ?thesis by auto
  next
    case (Inr s)
    with dup_window_Inr[of w] Cons.IH show ?thesis by auto
  qed
qed

lemma check_dup_Inl:
  "check_dup_win_labels ws = Inl e \<longleftrightarrow>
     (\<exists>pre w post front l cls behind c.
        ws = pre @ w # post \<and> (\<forall>w' \<in> set pre. distinct (map fst (window_labels w'))) \<and>
        window_labels w = front @ (l, cls) # behind \<and> distinct (map fst front) \<and>
        (l, c) \<in> set front \<and> e = ValueError (dup_message l (w_name w) cls c))"
  (is "?L ws \<longleftrightarrow> ?R ws")
proof (induction ws)
  case Nil
  then show ?case by simp
next
  case (Cons w ws)
  show ?case
  proof (cases "dup_transforms (w_name w) Map.empty (w_transforms w)")
    case (Inl e')
    then have nd: "\<not> distinct (map fst (window_labels w))"
      using dup_window_Inr[of w] by auto
    show ?thesis
    proof
      assume "?L (w # ws)"
      with Inl have "dup_transforms (w_name w) Map.empty (w_transforms w) = Inl e" by simp
      then obtain front l cls behind c where
        "window_labels w = front @ (l, cls) # behind" "distinct (map fst front)"
        "(l, c) \<in> set front" "e = ValueError (dup_message l (w_name w) cls c)"
        unfolding dup_window_Inl by blast
      then show "?R (w # ws)"
        by (intro exI[of _ "[]"] exI[of _ w] exI[of _ ws] exI[of _ front] exI[of _ l]
               exI[of _ cls] exI[of _ behind] exI[of _ c]) simp
    next
      assume "?R (w # ws)"
      then obtain pre w0 post front l cls behind c where
        d: "w # ws = pre @ w0 # post" "\<forall>w' \<in> set pre. distinct (map fst (window_labels w'))"
           "window_labels w0 = front @ (l, cls) # behind" "distinct (map fst front)"
           "(l, c) \<in> set front" "e = ValueError (dup_message l (w_name w0) cls c)" by blast
      have "pre = []"
      proof (cases pre)
        case Nil
        then show ?thesis .
      next
        case (Cons a list)
        with d(1) have "a = w" by simp
        with d(2) Cons nd show ?thesis by simp
      qed
      with d(1) have "w0 = w" by simp
      with d have "dup_transforms (w_name w) Map.empty (w_transforms w) = Inl e"
        unfolding dup_window_Inl by blast
      then show "?L (w # ws)" by simp
    qed
  next
    case (Inr s)
    then have dw: "distinct (map fst (window_labels w))"
      using dup_window_Inr[of w] by auto
    have ne: "\<And>e. dup_transforms (w_name w) Map.empty (w_transforms w) \<noteq> Inl e"
      using Inr by simp
    show ?thesis
    proof
      assume "?L (w # ws)"
      with Inr have "?L ws" by simp
      with Cons.IH obtain pre w0 post front l cls behind c where
        d: "ws = pre @ w0 # post" "\<forall>w' \<in> set pre. distinct (map fst (window_labels w'))"
           "window_labels w0 = front @ (l, cls) # behind" "distinct (map fst front)"
           "(l, c) \<in> set front" "e = ValueError (dup_message l (w_name w0) cls c)" by blast
      show "?R (w # ws)"
        apply (rule exI[of _ "w # pre"])
        apply (rule exI[of _ w0], rule exI[of _ post], rule exI[of _ front], rule exI[of _ l],
               rule exI[of _ cls], rule exI[of _ behind], rule exI[of _ c])
        using d dw by simp
    next
      assume "?R (w # ws)"
      then obtain pre w0 post front l cls behind c where
        d: "w # ws = pre @ w0 # post" "\<forall>w' \<in> set pre. distinct (map fst (window_labels w'))"
           "window_labels w0 = front @ (l, cls) # behind" "distinct (map fst front)"
           "(l, c) \<in> set front" "e = ValueError (dup_message l (w_name w0) cls c)" by blast
      have "pre \<noteq> []"
      proof
        assume "pre = []"
        with d(1) have "w0 = w" by simp
        with d have "dup_transforms (w_name w) Map.empty (w_transforms w) = Inl e"
          unfolding dup_window_Inl by blast
        with ne[of e] show False by blast
      qed
      then obtain pre' where p: "pre = w # pre'" using d(1) by (cases pre) auto
      have "?R ws"
        apply (rule exI[of _ pre'])
        apply (rule exI[of _ w0], rule exI[of _ post], rule exI[of _ front], rule exI[of _ l],
               rule exI[of _ cls], rule exI[of _ behind], rule exI[of _ c])
        using d p by simp
      with Cons.IH have "?L ws" by simp
      with Inr show "?L (w # ws)" by simp
    qed
  qed
qed

section \<open>The Params of a Transform\<close>










section \<open>Evaluating the small pipeline\<close>

lemmas example_defs = Add_t_def Scale_t_def Fail_t_def Hook_t_def Transform_init_def get_params_def
  getattr_def instance_dict_def
  Add_class_def Scale_class_def Param_init_def clear_dirty_def Let_def two_windows_def one_window_def
  sliders_same_def sliders_factor_def sliders_all_def tick_all_def Add_draw_def Scale_draw_def

lemmas step_defs = update_windows_def Window_dirty_def update_params_def update_value_def
  Transform_dirty_def argmax_def Window_draw_def astype_uint8_def Transform__draw_def

section \<open>Dirty flags after a render\<close>

text \<open>
  C5. After a call of \<^verbatim>\<open>Transform._draw\<close> that returns, every Param of the Transform
  has \<open>dirty = False\<close>: whether \<^verbatim>\<open>draw\<close> returned or raised an exception that was
  caught, and also for a Param whose own slider move made the Transform dirty.
\<close>

theorem Transform__draw_clears_dirty:
  "Transform__draw t img = Inr (t', r) \<Longrightarrow> \<forall>(l, p) \<in> set (t_params t'). p_dirty p = False"
  by (auto simp: Transform__draw_def clear_dirty_def split: sum.splits if_splits)

text \<open>
  The Param \<^verbatim>\<open>factor\<close> of \<^verbatim>\<open>Fail\<close> is dirty after its slider moved to 3; \<^verbatim>\<open>draw\<close>
  raises, \<^verbatim>\<open>_draw\<close> returns the input, and the Param is clean.
\<close>

theorem Transform__draw_clears_dirty_witness:
  "Transform_dirty (update_params sliders_factor Fail_t ''Step 2'') \<and>
   (\<exists>t'. Transform__draw (update_params sliders_factor Fail_t ''Step 2'') (Some 10) = Inr (t', Some 10) \<and>
      map (\<lambda>(l, p). (l, p_dirty p)) (t_params t') = [(''factor'', False)])"
proof -
  let ?t = "update_params sliders_factor Fail_t ''Step 2''"
  obtain t' where d: "Transform__draw ?t (Some 10) = Inr (t', Some 10)"
    and p: "map fst (t_params t') = [''factor'']"
    by (simp add: example_defs step_defs)
  from Transform__draw_clears_dirty[OF d] p
  have "map (\<lambda>(l, p). (l, p_dirty p)) (t_params t') = [(''factor'', False)]"
    by (cases "t_params t'") auto
  moreover have "Transform_dirty ?t" by (simp add: example_defs step_defs)
  ultimately show ?thesis using d by simp
qed

section \<open>Exceptions in a render\<close>

text \<open>
  A buffer that is \<^verbatim>\<open>None\<close> when it reaches the display makes \<^verbatim>\<open>Window.draw\<close>
  raise: with the input \<^verbatim>\<open>None\<close> and a \<^verbatim>\<open>draw\<close> that raises, \<^verbatim>\<open>_draw\<close> returns
  \<^verbatim>\<open>None\<close> and \<^verbatim>\<open>run_pipe\<close> ends in the first pass with \<^verbatim>\<open>AttributeError\<close>.
\<close>

lemma Window_draw_None:
  "draw_loop (w_transforms w) img = Inr (ts, None) \<Longrightarrow>
     \<exists>m. Window_draw astype w img shown = Inl (AttributeError m)"
  by (simp add: Window_draw_def astype_uint8_def)

lemma run_pipe_None_halts:
  "\<exists>m. run_pipe astype np_copy [TransformObj Fail_t] None 1 ticks = Inl (AttributeError m)"
  by (simp add: run_pipe_def collect_windows_def create_initial_groups_def Window_init_def
        Window_draw_def astype_uint8_def Transform__draw_def transform_labels_def
        Fail_t_def Transform_init_def get_params_def Scale_class_def Param_init_def Let_def
        getattr_def instance_dict_def)

text \<open>
  An exception raised by \<^verbatim>\<open>compute_values\<close> is not caught: it leaves \<^verbatim>\<open>_draw\<close>, and
  through \<^verbatim>\<open>Window.draw\<close> the loop of \<^verbatim>\<open>run_pipe\<close>.
\<close>

theorem compute_values_exception_propagates:
  "Transform__draw Hook_t (Some 10) = Inl (Exception ''boom'') \<and>
   run_loop Inr id (Some 10) [tick_all]
     ([\<lparr> w_name = ''Step 1'', w_transforms = [Hook_t], w_last_output = Some 10 \<rparr>], []) =
     Inl (Exception ''boom'')"
  by (simp add: example_defs step_defs getattr_def)

text \<open>
  C2, amended. An exception of a class under \<^verbatim>\<open>Exception\<close> raised by the draw step is
  caught: \<^verbatim>\<open>_draw\<close> returns the unmodified input buffer and stores it as
  \<^verbatim>\<open>last_output\<close>. The loop goes through every list of ticks without an exception in
  a pipeline where every \<^verbatim>\<open>compute_values\<close> hook returns, every draw step raises
  nothing outside \<^verbatim>\<open>Exception\<close> and returns no \<^verbatim>\<open>None\<close> on an image, the copy of the
  input and every cached \<^verbatim>\<open>last_output\<close> of a Window are not \<^verbatim>\<open>None\<close>, and the
  conversion \<^verbatim>\<open>astype(np.uint8)\<close> returns on every image. What \<^verbatim>\<open>compute_values\<close>
  raises, and what the draw step raises outside \<^verbatim>\<open>Exception\<close>, leaves \<^verbatim>\<open>_draw\<close>.
\<close>

theorem Transform__draw_swallows_draw_Exception:
  "(t_compute_values t (t_params t) = Inr ps \<and> t_draw t ps img = Inl e \<and> isinstance_Exception e \<longrightarrow>
      Transform__draw t img = Inr (t\<lparr> t_last_output := img, t_params := clear_dirty ps \<rparr>, img)) \<and>
   ((\<forall>w \<in> set ws. window_caught w \<and> w_last_output w \<noteq> None) \<and> np_copy img0 \<noteq> None \<and>
    (\<forall>x. \<exists>f. astype x = Inr f) \<longrightarrow>
      (\<exists>r. run_loop astype np_copy img0 ticks (ws, shown) = Inr r)) \<and>
   (t_compute_values t (t_params t) = Inl e \<longrightarrow> Transform__draw t img = Inl e) \<and>
   (t_compute_values t (t_params t) = Inr ps \<and> t_draw t ps img = Inl e \<and> \<not> isinstance_Exception e \<longrightarrow>
      Transform__draw t img = Inl e)"
proof -
  have "(\<forall>w \<in> set ws. window_caught w \<and> w_last_output w \<noteq> None) \<and> np_copy img0 \<noteq> None \<and>
    (\<forall>x. \<exists>f. astype x = Inr f) \<longrightarrow>
      (\<exists>r. run_loop astype np_copy img0 ticks (ws, shown) = Inr r)"
    using run_loop_returns[of np_copy img0 astype "(ws, shown)" ticks] by simp
  then show ?thesis by (simp add: Transform__draw_def)
qed

theorem Transform__draw_swallows_draw_Exception_witness:
  "Transform__draw Fail_t (Some 10) =
     Inr (Fail_t\<lparr> t_last_output := Some 10, t_params := clear_dirty (t_params Fail_t) \<rparr>, Some 10) \<and>
   (\<exists>r. run_loop Inr id (Some 10) [tick_all, tick_all]
          ([\<lparr> w_name = ''Step 1'', w_transforms = [Fail_t], w_last_output = Some 10 \<rparr>], []) = Inr r) \<and>
   Transform__draw Hook_t (Some 10) = Inl (Exception ''boom'') \<and>
   Transform__draw (Fail_t\<lparr> t_draw := \<lambda>ps img. Inl KeyboardInterrupt \<rparr>) (Some 10) = Inl KeyboardInterrupt"
proof -
  have c: "t_compute_values Fail_t (t_params Fail_t) = Inr (t_params Fail_t)"
    and d: "t_draw Fail_t (t_params Fail_t) (Some 10) = Inl (Exception ''bad kernel'')"
    by (simp_all add: Fail_t_def Transform_init_def)
  have w: "\<forall>w \<in> set [\<lparr> w_name = ''Step 1'', w_transforms = [Fail_t], w_last_output = Some (10::nat) \<rparr>].
             window_caught w \<and> w_last_output w \<noteq> None"
    by (auto simp: window_caught_def hooks_caught_def Fail_t_def Transform_init_def)
  have n: "id (Some (10::nat)) \<noteq> None" "\<forall>x::nat. \<exists>f. Inr x = (Inr f :: exc + nat)"
    by simp_all
  have h: "t_compute_values Hook_t (t_params Hook_t) = Inl (Exception ''boom'')"
    by (simp add: Hook_t_def Transform_init_def)
  let ?k = "Fail_t\<lparr> t_draw := \<lambda>ps img. Inl KeyboardInterrupt \<rparr>"
  have k: "t_compute_values ?k (t_params ?k) = Inr (t_params ?k)"
    "t_draw ?k (t_params ?k) (Some 10) = Inl KeyboardInterrupt"
    by (simp_all add: Fail_t_def Transform_init_def)
  note inst = Transform__draw_swallows_draw_Exception
  have 1: "Transform__draw Fail_t (Some 10) =
     Inr (Fail_t\<lparr> t_last_output := Some 10, t_params := clear_dirty (t_params Fail_t) \<rparr>, Some 10)"
    using inst[where t = Fail_t and ps = "t_params Fail_t" and img = "Some 10"
        and e = "Exception ''bad kernel''" and ws = "[]" and np_copy = id and ?img0.0 = None
        and astype = Inr and ticks = "[]" and shown = "[]"]
      c d by simp
  have 2: "\<exists>r. run_loop Inr id (Some 10) [tick_all, tick_all]
          ([\<lparr> w_name = ''Step 1'', w_transforms = [Fail_t], w_last_output = Some 10 \<rparr>], []) = Inr r"
    using inst[where t = Fail_t and ps = "[]" and img = None and e = SystemExit
        and ws = "[\<lparr> w_name = ''Step 1'', w_transforms = [Fail_t], w_last_output = Some 10 \<rparr>]"
        and np_copy = id and ?img0.0 = "Some 10" and astype = Inr
        and ticks = "[tick_all, tick_all]" and shown = "[]"] w n by blast
  have 3: "Transform__draw Hook_t (Some 10) = Inl (Exception ''boom'')"
    using inst[where t = Hook_t and ps = "[]" and img = "Some 10" and e = "Exception ''boom''"
        and ws = "[]" and np_copy = id and ?img0.0 = None and astype = Inr and ticks = "[]"
        and shown = "[]"] h by simp
  have 4: "Transform__draw ?k (Some 10) = Inl KeyboardInterrupt"
    using inst[where t = ?k and ps = "t_params ?k" and img = "Some 10" and e = KeyboardInterrupt
        and ws = "[]" and np_copy = id and ?img0.0 = None and astype = Inr and ticks = "[]"
        and shown = "[]"] k by simp
  from 1 2 3 4 show ?thesis by simp
qed

section \<open>The dirty index of a Window\<close>

text \<open>
  With every slider moved to 7, the dirty index of the Window \<^verbatim>\<open>Both\<close> is 0 and the
  Param of its second Transform still holds the position 1: it was not synchronized.
\<close>

theorem Window_dirty_leaves_later_Transforms_unsynchronized:
  "fst (Window_dirty sliders_all one_window) = 0 \<and>
   map (\<lambda>t. map (\<lambda>(l, p). (l, p_pos p)) (t_params t))
     (w_transforms (snd (Window_dirty sliders_all one_window))) =
     [[(''amount'', 7)], [(''factor'', 1)]] \<and>
   sliders_all ''factor'' ''Both'' = 7"
  by (simp add: example_defs step_defs)

text \<open>
  C3, amended. Evaluating a Window's dirty index synchronizes its Transforms in order up to
  and including the first one that is dirty after its synchronization, and returns the
  index of that Transform; the Transforms after it are left as they were. When no
  Transform is dirty, every Transform is synchronized and \<open>-1\<close> is returned.
\<close>

theorem Window_dirty_synchronizes_through_first_dirty:
  "((\<forall>t \<in> set (w_transforms w). \<not> Transform_dirty (update_params tb t (w_name w))) \<longrightarrow>
      Window_dirty tb w =
        (- 1, w\<lparr> w_transforms := map (\<lambda>t. update_params tb t (w_name w)) (w_transforms w) \<rparr>)) \<and>
   (k < length (w_transforms w) \<and>
    Transform_dirty (update_params tb (w_transforms w ! k) (w_name w)) \<and>
    (\<forall>j < k. \<not> Transform_dirty (update_params tb (w_transforms w ! j) (w_name w))) \<longrightarrow>
      Window_dirty tb w =
        (int k, w\<lparr> w_transforms :=
                    map (\<lambda>t. update_params tb t (w_name w)) (take (Suc k) (w_transforms w)) @
                    drop (Suc k) (w_transforms w) \<rparr>))"
  using dirty_loop_clean[of "w_transforms w" tb "w_name w" 0]
    dirty_loop_first[of k "w_transforms w" tb "w_name w" 0]
  by (simp add: Window_dirty_def)

theorem Window_dirty_synchronizes_through_first_dirty_witness:
  "fst (Window_dirty sliders_same one_window) = - 1 \<and>
   w_transforms (snd (Window_dirty sliders_same one_window)) =
     [update_params sliders_same Add_t ''Both'', update_params sliders_same Scale_t ''Both''] \<and>
   Window_dirty sliders_factor one_window =
     (1, one_window\<lparr> w_transforms :=
           [update_params sliders_factor Add_t ''Both'', update_params sliders_factor Scale_t ''Both''] \<rparr>) \<and>
   Window_dirty sliders_all one_window =
     (0, one_window\<lparr> w_transforms := [update_params sliders_all Add_t ''Both'', Scale_t] \<rparr>)"
proof -
  note inst = Window_dirty_synchronizes_through_first_dirty
  have n: "w_name one_window = ''Both''" "w_transforms one_window = [Add_t, Scale_t]"
    by (simp_all add: one_window_def)
  have c: "\<not> Transform_dirty (update_params sliders_same Add_t ''Both'')"
    "\<not> Transform_dirty (update_params sliders_same Scale_t ''Both'')"
    "\<not> Transform_dirty (update_params sliders_factor Add_t ''Both'')"
    "Transform_dirty (update_params sliders_factor Scale_t ''Both'')"
    "Transform_dirty (update_params sliders_all Add_t ''Both'')"
    by (simp_all add: example_defs update_params_def update_value_def Transform_dirty_def)
  have 1: "Window_dirty sliders_same one_window =
      (- 1, one_window\<lparr> w_transforms :=
          [update_params sliders_same Add_t ''Both'', update_params sliders_same Scale_t ''Both''] \<rparr>)"
    using inst[of one_window sliders_same 0] n c by simp
  have 2: "Window_dirty sliders_factor one_window =
     (1, one_window\<lparr> w_transforms :=
           [update_params sliders_factor Add_t ''Both'', update_params sliders_factor Scale_t ''Both''] \<rparr>)"
    using inst[of one_window sliders_factor 1] n c by simp
  have 3: "Window_dirty sliders_all one_window =
     (0, one_window\<lparr> w_transforms := [update_params sliders_all Add_t ''Both'', Scale_t] \<rparr>)"
    using inst[of one_window sliders_all 0] n c by simp
  from 1 2 3 show ?thesis by simp
qed

section \<open>Minimal recompute\<close>

text \<open>
  C1. On a tick where some Window reports a dirty index other than \<open>-1\<close>, with \<open>k\<close> the
  first such Window: the Windows \<open>k..N-1\<close> are drawn in order, each on the output of the
  one before, Window \<open>k\<close> on \<^verbatim>\<open>np.copy(img)\<close> if \<open>k = 0\<close> and on the cached
  \<^verbatim>\<open>last_output\<close> of Window \<open>k-1\<close> otherwise; one frame per drawn Window is shown, in
  that order; the Windows before \<open>k\<close> are only synchronized, and their \<^verbatim>\<open>last_output\<close>
  and those of their Transforms are unchanged.
\<close>

theorem update_windows_minimal_recompute:
  assumes "k < length ws"
    and "fst (Window_dirty tb (ws ! k)) \<noteq> - 1"
    and "\<forall>j < k. fst (Window_dirty tb (ws ! j)) = - 1"
  shows "update_windows astype np_copy img tb (ws, shown) =
      (case draw_windows astype (drop k (map (\<lambda>w. snd (Window_dirty tb w)) ws))
              (if k = 0 then np_copy img else w_last_output (ws ! (k - 1))) shown of
         Inl e \<Rightarrow> Inl e
       | Inr (drawn, shown', r) \<Rightarrow>
           Inr (take k (map (\<lambda>w. snd (Window_dirty tb w)) ws) @ drawn, shown')) \<and>
    (\<forall>ws' shown'. update_windows astype np_copy img tb (ws, shown) = Inr (ws', shown') \<longrightarrow>
       length ws' = length ws \<and>
       (\<exists>frames. shown' = shown @ frames \<and> map fst frames = map w_name (drop k ws) \<and>
          map (\<lambda>f. Inr (snd f)) frames =
            map (\<lambda>w. astype_uint8 astype (w_last_output w)) (drop k ws')) \<and>
       (\<forall>j < k. ws' ! j = snd (Window_dirty tb (ws ! j)) \<and>
          w_last_output (ws' ! j) = w_last_output (ws ! j) \<and>
          map t_last_output (w_transforms (ws' ! j)) = map t_last_output (w_transforms (ws ! j))) \<and>
       (\<forall>i. k \<le> i \<and> i < length ws \<longrightarrow>
          (\<exists>f. astype_uint8 astype (w_last_output (ws' ! i)) = Inr f \<and>
             Window_draw astype (snd (Window_dirty tb (ws ! i)))
               (if i = k then (if k = 0 then np_copy img else w_last_output (ws ! (k - 1)))
                else w_last_output (ws' ! (i - 1))) [] =
             Inr (ws' ! i, [(w_name (ws ! i), f)], w_last_output (ws' ! i)))))"
proof (intro conjI allI impI)
  let ?ws = "map (\<lambda>w. snd (Window_dirty tb w)) ws"
  let ?input = "if k = 0 then np_copy img else w_last_output (ws ! (k - 1))"
  show eq: "update_windows astype np_copy img tb (ws, shown) =
      (case draw_windows astype (drop k ?ws) ?input shown of
         Inl e \<Rightarrow> Inl e
       | Inr (drawn, shown', r) \<Rightarrow> Inr (take k ?ws @ drawn, shown'))"
    by (rule update_windows_first_dirty[OF assms])
  fix ws' shown'
  assume r: "update_windows astype np_copy img tb (ws, shown) = Inr (ws', shown')"
  with eq obtain drawn res where
    dw: "draw_windows astype (drop k ?ws) ?input shown = Inr (drawn, shown', res)"
    and ws': "ws' = take k ?ws @ drawn"
    by (auto split: sum.splits)
  from draw_windows_frames[OF dw] obtain frames where
    len: "length drawn = length ws - k" and
    sh: "shown' = shown @ frames" "map fst frames = map w_name (drop k ?ws)"
      "map (\<lambda>f. Inr (snd f)) frames = map (\<lambda>w. astype_uint8 astype (w_last_output w)) drawn"
    by auto
  have names: "map w_name (drop k ?ws) = map w_name (drop k ws)"
    by (simp add: drop_map Window_dirty_frame)
  have dr: "drop k ws' = drawn" using ws' assms(1) by simp
  show "length ws' = length ws" using ws' len assms(1) by simp
  show "\<exists>frames. shown' = shown @ frames \<and> map fst frames = map w_name (drop k ws) \<and>
          map (\<lambda>f. Inr (snd f)) frames =
            map (\<lambda>w. astype_uint8 astype (w_last_output w)) (drop k ws')"
    using sh names dr by (intro exI[of _ frames]) simp
  {
    fix j assume j: "j < k"
    then have "ws' ! j = snd (Window_dirty tb (ws ! j))"
      using ws' assms(1) by (simp add: nth_append)
    then show "ws' ! j = snd (Window_dirty tb (ws ! j))"
      "w_last_output (ws' ! j) = w_last_output (ws ! j)"
      "map t_last_output (w_transforms (ws' ! j)) = map t_last_output (w_transforms (ws ! j))"
      by (simp_all add: Window_dirty_frame)
  }
  {
    fix i assume i: "k \<le> i \<and> i < length ws"
    then have ik: "i - k < length (drop k ?ws)" by auto
    have a: "drop k ?ws ! (i - k) = snd (Window_dirty tb (ws ! i))" using i by simp
    have b: "ws' ! i = drawn ! (i - k)" using ws' i assms(1) by (simp add: nth_append)
    have c: "i \<noteq> k \<Longrightarrow> ws' ! (i - 1) = drawn ! (i - k - 1)"
      using ws' i assms(1) by (auto simp: nth_append)
    have d: "w_name (snd (Window_dirty tb (ws ! i))) = w_name (ws ! i)"
      by (simp add: Window_dirty_frame)
    from draw_windows_nth[OF dw ik] a b c d
    show "\<exists>f. astype_uint8 astype (w_last_output (ws' ! i)) = Inr f \<and>
             Window_draw astype (snd (Window_dirty tb (ws ! i)))
               (if i = k then ?input else w_last_output (ws' ! (i - 1))) [] =
             Inr (ws' ! i, [(w_name (ws ! i), f)], w_last_output (ws' ! i))"
      using i by (cases "i = k") auto
  }
qed

text \<open>
  Only \<^verbatim>\<open>factor\<close> moved: the first Window is clean, the second is drawn on the cached
  output 11 of the first and shows 33.
\<close>

theorem update_windows_minimal_recompute_witness:
  "(1::nat) < length two_windows \<and>
   fst (Window_dirty sliders_factor (two_windows ! 1)) = 0 \<and>
   fst (Window_dirty sliders_factor (two_windows ! 0)) = - 1 \<and>
   (\<exists>ws'. update_windows Inr id (Some 10) sliders_factor (two_windows, []) =
             Inr (ws', [(''Step 2'', 33)]) \<and>
          map w_last_output ws' = [Some 11, Some 33] \<and>
          ws' ! 0 = snd (Window_dirty sliders_factor (two_windows ! 0)))"
proof -
  have h: "(1::nat) < length two_windows"
    "fst (Window_dirty sliders_factor (two_windows ! 1)) \<noteq> - 1"
    "\<forall>j < 1. fst (Window_dirty sliders_factor (two_windows ! j)) = - 1"
    by (simp_all add: example_defs step_defs getattr_def)
  have v: "fst (Window_dirty sliders_factor (two_windows ! 1)) = 0"
    "fst (Window_dirty sliders_factor (two_windows ! 0)) = - 1"
    by (simp_all add: example_defs step_defs getattr_def)
  obtain ws' where u: "update_windows Inr id (Some 10) sliders_factor (two_windows, []) =
             Inr (ws', [(''Step 2'', 33)])"
    and l: "map w_last_output ws' = [Some 11, Some 33]"
    by (simp add: example_defs step_defs getattr_def)
  from update_windows_minimal_recompute[OF h, of Inr id "Some 10" "[]"] u
  have "ws' ! 0 = snd (Window_dirty sliders_factor (two_windows ! 0))" by simp
  with h v u l show ?thesis by simp
qed

section \<open>Idempotence\<close>

lemma update_params_unmoved:
  assumes "\<forall>(l, p) \<in> set (t_params t). tb (p_label p) wn = p_pos p"
  shows "\<not> Transform_dirty (update_params tb t wn)"
  using assms
  by (auto simp: Transform_dirty_def update_params_params list_ex_iff update_value_dirty)

lemma Window_dirty_unmoved:
  assumes "\<forall>t \<in> set (w_transforms w). \<forall>(l, p) \<in> set (t_params t). tb (p_label p) (w_name w) = p_pos p"
  shows "Window_dirty tb w =
     (- 1, w\<lparr> w_transforms := map (\<lambda>t. update_params tb t (w_name w)) (w_transforms w) \<rparr>)"
proof -
  have "\<forall>t \<in> set (w_transforms w). \<not> Transform_dirty (update_params tb t (w_name w))"
    using assms update_params_unmoved by blast
  from dirty_loop_clean[OF this, of 0] show ?thesis by (simp add: Window_dirty_def)
qed

text \<open>
  C8. If every slider reads the position its Param stored at the last synchronization,
  every Window's dirty index is \<open>-1\<close>, the tick draws nothing (no frame is shown), and
  every \<^verbatim>\<open>last_output\<close>, of Windows and of Transforms, is unchanged.
\<close>

theorem update_windows_idempotent:
  assumes "\<forall>w \<in> set ws. \<forall>t \<in> set (w_transforms w). \<forall>(l, p) \<in> set (t_params t).
             tb (p_label p) (w_name w) = p_pos p"
  shows "fst (dirty_all tb ws) = replicate (length ws) (- 1) \<and>
     update_windows astype np_copy img tb (ws, shown) =
       Inr (map (\<lambda>w. snd (Window_dirty tb w)) ws, shown) \<and>
     map w_last_output (map (\<lambda>w. snd (Window_dirty tb w)) ws) = map w_last_output ws \<and>
     map (\<lambda>w. map t_last_output (w_transforms w)) (map (\<lambda>w. snd (Window_dirty tb w)) ws) =
       map (\<lambda>w. map t_last_output (w_transforms w)) ws"
proof -
  have d: "\<forall>w \<in> set ws. fst (Window_dirty tb w) = - 1"
  proof
    fix w assume "w \<in> set ws"
    with assms have "\<forall>t \<in> set (w_transforms w). \<forall>(l, p) \<in> set (t_params t).
        tb (p_label p) (w_name w) = p_pos p" by blast
    with Window_dirty_unmoved[of w tb] show "fst (Window_dirty tb w) = - 1" by simp
  qed
  then have ds: "map (\<lambda>w. fst (Window_dirty tb w)) ws = replicate (length ws) (- 1)"
    by (simp add: map_replicate_const[symmetric] cong: map_cong)
  have "list_all (\<lambda>b. b) (map (\<lambda>d. d = - 1) (map (\<lambda>w. fst (Window_dirty tb w)) ws))"
    using d by (simp add: list_all_iff)
  then have "update_windows astype np_copy img tb (ws, shown) =
       Inr (map (\<lambda>w. snd (Window_dirty tb w)) ws, shown)"
    by (simp add: update_windows_def dirty_all_map)
  with ds show ?thesis by (simp add: dirty_all_map Window_dirty_frame)
qed

theorem update_windows_idempotent_witness:
  "sliders_same ''amount'' ''Step 1'' = 1 \<and> sliders_same ''factor'' ''Step 2'' = 1 \<and>
   map (\<lambda>w. map (\<lambda>t. map (\<lambda>(l, p). p_pos p) (t_params t)) (w_transforms w)) two_windows = [[[1]], [[1]]] \<and>
   fst (dirty_all sliders_same two_windows) = [- 1, - 1] \<and>
   (\<exists>ws'. update_windows Inr id (Some 10) sliders_same (two_windows, [(''Step 2'', 11)]) =
            Inr (ws', [(''Step 2'', 11)]) \<and>
          map w_last_output ws' = [Some 11, Some 11] \<and>
          map (\<lambda>w. map t_last_output (w_transforms w)) ws' = [[Some 11], [Some 11]])"
proof -
  have h: "\<forall>w \<in> set two_windows. \<forall>t \<in> set (w_transforms w). \<forall>(l, p) \<in> set (t_params t).
             sliders_same (p_label p) (w_name w) = p_pos p"
    by (simp add: example_defs)
  have e: "map (\<lambda>w. map (\<lambda>t. map (\<lambda>(l, p). p_pos p) (t_params t)) (w_transforms w)) two_windows = [[[1]], [[1]]]"
    "map w_last_output two_windows = [Some 11, Some 11]"
    "map (\<lambda>w. map t_last_output (w_transforms w)) two_windows = [[Some 11], [Some 11]]"
    "length two_windows = 2"
    by (simp_all add: example_defs)
  have s: "sliders_same ''amount'' ''Step 1'' = 1" "sliders_same ''factor'' ''Step 2'' = 1"
    by (simp_all add: sliders_same_def)
  from update_windows_idempotent[OF h, of Inr id "Some 10" "[(''Step 2'', 11)]"] e
  have "fst (dirty_all sliders_same two_windows) = [- 1, - 1] \<and>
   (\<exists>ws'. update_windows Inr id (Some 10) sliders_same (two_windows, [(''Step 2'', 11)]) =
            Inr (ws', [(''Step 2'', 11)]) \<and>
          map w_last_output ws' = [Some 11, Some 11] \<and>
          map (\<lambda>w. map t_last_output (w_transforms w)) ws' = [[Some 11], [Some 11]])"
    by (simp add: numeral_2_eq_2)
  with s e show ?thesis by simp
qed

section \<open>Grouping the items\<close>

text \<open>
  C10. Grouping the empty list does not fail: it returns one Window named
  \<^verbatim>\<open>Step <counter>\<close> with no Transforms, and the counter is incremented.
\<close>

theorem collect_windows_empty:
  "collect_windows [] counter =
     Inr ([\<lparr> w_name = ''Step '' @ str_int counter, w_transforms = [], w_last_output = None \<rparr>],
          counter + 1)"
  by (simp add: collect_windows_def create_initial_groups_def Window_init_def)

text \<open>
  A list whose only item is a Window holding an object that is not a Transform is
  refused, and the empty list, whose items are all Windows, is not returned as it is.
\<close>

theorem collect_windows_not_as_is:
  "collect_windows ([WindowObj ''A'' [OtherObj] None] :: nat obj list) 1 =
     Inl (TypeError ''Items must be Transforms or list of transforms'') \<and>
   collect_windows ([] :: nat obj list) 1 =
     Inr ([\<lparr> w_name = ''Step 1'', w_transforms = [], w_last_output = None \<rparr>], 2)"
  by (simp add: collect_windows_def create_initial_groups_def Window_init_def str_int_def
        str_nat.simps digit_char_def)

text \<open>
  C6, amended. If every item is a bare Transform, the grouping returns exactly one
  implicit Window with all the items in their order; if a Window and a bare Transform
  occur in the list, it fails; if the list is not empty and every item is a Window that
  holds Transforms only, the Windows are returned as they are, in order; a Window that
  holds an object that is not a Transform makes it fail.
\<close>

theorem collect_windows_grouping:
  "collect_windows (map TransformObj ts) counter =
     Inr ([\<lparr> w_name = ''Step '' @ str_int counter, w_transforms = ts, w_last_output = None \<rparr>],
          counter + 1) \<and>
   ((\<exists>i \<in> set items. isinstance_Window i) \<and> (\<exists>i \<in> set items. isinstance_Transform i) \<longrightarrow>
      (\<exists>e. collect_windows items counter = Inl e)) \<and>
   (ws \<noteq> [] \<longrightarrow> collect_windows (map Window_obj ws) counter = Inr (ws, counter)) \<and>
   (WindowObj name members lo \<in> set items \<and> check_group members \<noteq> Inr () \<longrightarrow>
      (\<exists>e. collect_windows items counter = Inl e))"
  using collect_windows_Transforms[of ts counter] collect_windows_mixed[of items counter]
    collect_windows_Windows[of ws counter] collect_windows_bad_member[of name members lo items counter]
  by blast

theorem collect_windows_grouping_witness:
  "collect_windows [TransformObj Add_t, TransformObj Scale_t] 1 =
     Inr ([\<lparr> w_name = ''Step 1'', w_transforms = [Add_t, Scale_t], w_last_output = None \<rparr>], 2) \<and>
   (\<exists>e. collect_windows [Window_obj (two_windows ! 0), TransformObj Scale_t] 1 = Inl e) \<and>
   collect_windows (map Window_obj two_windows) 1 = Inr (two_windows, 1) \<and>
   (\<exists>e. collect_windows [Window_obj (two_windows ! 0), WindowObj ''A'' [OtherObj] None] 1 = Inl e)"
proof -
  note inst = collect_windows_grouping
  have s: "''Step '' @ str_int 1 = ''Step 1''"
    by (simp add: str_int_def str_nat.simps digit_char_def)
  have 1: "collect_windows [TransformObj Add_t, TransformObj Scale_t] 1 =
     Inr ([\<lparr> w_name = ''Step 1'', w_transforms = [Add_t, Scale_t], w_last_output = None \<rparr>], 2)"
    using inst[of "[Add_t, Scale_t]" 1 "[]" "[]" "[]" "[]" None] s by simp
  have 2: "\<exists>e. collect_windows [Window_obj (two_windows ! 0), TransformObj Scale_t] 1 = Inl e"
    using inst[of "[]" 1 "[Window_obj (two_windows ! 0), TransformObj Scale_t]" "[]" "[]" "[]" None]
    by (auto simp: Window_obj_def)
  have 3: "collect_windows (map Window_obj two_windows) 1 = Inr (two_windows, 1)"
  proof -
    have "two_windows \<noteq> []" by (simp add: two_windows_def)
    with inst[of "[]" 1 "[]" two_windows "[]" "[]" None] show ?thesis by blast
  qed
  have 4: "\<exists>e. collect_windows [Window_obj (two_windows ! 0), WindowObj ''A'' [OtherObj] None] 1 = Inl e"
    using inst[of "[]" 1 "[Window_obj (two_windows ! 0), WindowObj ''A'' [OtherObj] None]" "[]"
        "''A''" "[OtherObj]" None]
    by auto
  from 1 2 3 4 show ?thesis by simp
qed

section \<open>Label collisions in a Window\<close>

text \<open>
  C7. \<^verbatim>\<open>check_dup_win_labels\<close> succeeds exactly when no label repeats inside one
  Window, whatever the other Windows declare. It fails exactly at the first Window with
  a repeated label and there at the first label already seen in that Window, with the
  \<^verbatim>\<open>ValueError\<close> whose text names the label, the Window's name, the class of the
  Transform being scanned and the class of the Transform that declared the label first.
\<close>

theorem check_dup_win_labels_first_repeat:
  "(check_dup_win_labels ws = Inr () \<longleftrightarrow>
      (\<forall>w \<in> set ws. distinct (map fst (window_labels w)))) \<and>
   (check_dup_win_labels ws = Inl e \<longleftrightarrow>
      (\<exists>pre w post front l cls behind c.
         ws = pre @ w # post \<and> (\<forall>w' \<in> set pre. distinct (map fst (window_labels w'))) \<and>
         window_labels w = front @ (l, cls) # behind \<and> distinct (map fst front) \<and>
         (l, c) \<in> set front \<and> e = ValueError (dup_message l (w_name w) cls c)))"
  using check_dup_Inr[of ws] check_dup_Inl[of ws e] by blast

theorem check_dup_win_labels_first_repeat_witness:
  "check_dup_win_labels
     [\<lparr> w_name = ''Step 1'', w_transforms = [Scale_t], w_last_output = None \<rparr>,
      \<lparr> w_name = ''Step 2'', w_transforms = [Scale_t], w_last_output = None \<rparr>] = Inr () \<and>
   window_labels dup_window = [(''factor'', ''Scale''), (''amount'', ''Add''), (''factor'', ''Fail'')] \<and>
   check_dup_win_labels [two_windows ! 0, dup_window, dup_window] =
     Inl (ValueError (dup_message ''factor'' ''Dup'' ''Fail'' ''Scale'')) \<and>
   dup_message ''factor'' ''Dup'' ''Fail'' ''Scale'' =
     ''Param: `factor` is defined twice in window `Dup` in transforms `Fail` and `Scale`. Rename one by changing the attribute name or using the Param `label` kwarg.''"
proof -
  note inst = check_dup_win_labels_first_repeat
  have l: "window_labels dup_window = [(''factor'', ''Scale''), (''amount'', ''Add''), (''factor'', ''Fail'')]"
    "window_labels (two_windows ! 0) = [(''amount'', ''Add'')]"
    "window_labels \<lparr> w_name = ''Step 1'', w_transforms = [Scale_t], w_last_output = None \<rparr> = [(''factor'', ''Scale'')]"
    "window_labels \<lparr> w_name = ''Step 2'', w_transforms = [Scale_t], w_last_output = None \<rparr> = [(''factor'', ''Scale'')]"
    by (simp_all add: window_labels_def transform_labels_def dup_window_def example_defs)
  have 1: "check_dup_win_labels
     [\<lparr> w_name = ''Step 1'', w_transforms = [Scale_t], w_last_output = None \<rparr>,
      \<lparr> w_name = ''Step 2'', w_transforms = [Scale_t], w_last_output = None \<rparr>] = Inr ()"
    using inst[of "[\<lparr> w_name = ''Step 1'', w_transforms = [Scale_t], w_last_output = None \<rparr>,
      \<lparr> w_name = ''Step 2'', w_transforms = [Scale_t], w_last_output = None \<rparr>]" "Exception []"] l
    by simp
  have "\<exists>pre w post front l cls behind c.
         [two_windows ! 0, dup_window, dup_window] = pre @ w # post \<and>
         (\<forall>w' \<in> set pre. distinct (map fst (window_labels w'))) \<and>
         window_labels w = front @ (l, cls) # behind \<and> distinct (map fst front) \<and>
         (l, c) \<in> set front \<and>
         ValueError (dup_message ''factor'' ''Dup'' ''Fail'' ''Scale'') =
           ValueError (dup_message l (w_name w) cls c)"
    apply (rule exI[of _ "[two_windows ! 0]"], rule exI[of _ dup_window],
           rule exI[of _ "[dup_window]"],
           rule exI[of _ "[(''factor'', ''Scale''), (''amount'', ''Add'')]"],
           rule exI[of _ "''factor''"], rule exI[of _ "''Fail''"], rule exI[of _ "[]"],
           rule exI[of _ "''Scale''"])
    using l by (simp add: dup_window_def)
  with inst[of "[two_windows ! 0, dup_window, dup_window]"
      "ValueError (dup_message ''factor'' ''Dup'' ''Fail'' ''Scale'')"]
  have 2: "check_dup_win_labels [two_windows ! 0, dup_window, dup_window] =
     Inl (ValueError (dup_message ''factor'' ''Dup'' ''Fail'' ''Scale''))"
    by blast
  have 3: "dup_message ''factor'' ''Dup'' ''Fail'' ''Scale'' =
     ''Param: `factor` is defined twice in window `Dup` in transforms `Fail` and `Scale`. Rename one by changing the attribute name or using the Param `label` kwarg.''"
    by (simp add: dup_message_def)
  from 1 2 3 l show ?thesis by simp
qed

section \<open>Params declared without a label\<close>




end
